theory Spec2Isabelle
  imports Complex_Main "HOL-Library.Sublist"
begin

section \<open>JavaScript strings\<close>

text \<open>
  A JavaScript string is a sequence of UTF-16 code units. A code unit is modelled by its
  number, so that the non-ASCII characters of \<^verbatim>\<open>server.js\<close> (the bullet U+2022, the em dash
  U+2014, the Vietnamese default verbs) are single elements, as they are for
  \<^verbatim>\<open>trim\<close>, \<^verbatim>\<open>split\<close> and the regular expressions. ASCII literals are written
  \<open>js ''...''\<close>.
\<close>

type_synonym jschar = nat
type_synonym jsstring = "jschar list"

definition js :: "string \<Rightarrow> jsstring" where
  "js s = map of_char s"

text \<open>
  ECMAScript's WhiteSpace and LineTerminator code points: what \<^verbatim>\<open>String.prototype.trim\<close>
  removes and what \<^verbatim>\<open>\s\<close> matches.
\<close>

definition isSpace :: "jschar \<Rightarrow> bool" where
  "isSpace c = (c = 9 \<or> c = 10 \<or> c = 11 \<or> c = 12 \<or> c = 13 \<or> c = 32 \<or> c = 160 \<or> c = 5760
     \<or> (8192 \<le> c \<and> c \<le> 8202) \<or> c = 8232 \<or> c = 8233 \<or> c = 8239 \<or> c = 8287
     \<or> c = 12288 \<or> c = 65279)"

text \<open>\<^verbatim>\<open>\d\<close> matches the ASCII digits only.\<close>

definition isDigit :: "jschar \<Rightarrow> bool" where
  "isDigit c = (48 \<le> c \<and> c \<le> 57)"

definition trim :: "jsstring \<Rightarrow> jsstring" where
  "trim s = rev (dropWhile isSpace (rev (dropWhile isSpace s)))"

text \<open>
  \<^verbatim>\<open>s.split(/\r?\n/)\<close>: a scan from the left; a line feed ends the current piece, and a
  carriage return right before it belongs to the separator. The result always has at
  least one piece.
\<close>

fun split_acc :: "jsstring \<Rightarrow> jsstring \<Rightarrow> jsstring list" where
  "split_acc cur [] = [rev cur]"
| "split_acc cur (c # s) =
     (if c = 10 then rev cur # split_acc [] s
      else if c = 13 \<and> take 1 s = [10] then rev cur # split_acc [] (drop 1 s)
      else split_acc (c # cur) s)"

definition split_lines :: "jsstring \<Rightarrow> jsstring list" where
  "split_lines s = split_acc [] s"

text \<open>\<^verbatim>\<open>s.includes(t)\<close>: \<open>t\<close> occurs in \<open>s\<close> as a contiguous piece.\<close>

fun str_includes :: "jsstring \<Rightarrow> jsstring \<Rightarrow> bool" where
  "str_includes [] t = (t = [])"
| "str_includes (c # s) t = (prefix t (c # s) \<or> str_includes s t)"

text \<open>Decimal rendering of a number, as a template literal interpolates it.\<close>

fun show_nat :: "nat \<Rightarrow> jsstring" where
  "show_nat n = (if n < 10 then [48 + n] else show_nat (n div 10) @ [48 + n mod 10])"

declare show_nat.simps [simp del]

definition show_int :: "int \<Rightarrow> jsstring" where
  "show_int i = (if i < 0 then 45 # show_nat (nat (- i)) else show_nat (nat i))"

subsection \<open>The regular expressions of the parser\<close>

text \<open>
  Every regular expression of \<^verbatim>\<open>server.js\<close> is anchored at \<^verbatim>\<open>^\<close> and is a sequence of
  character classes, each taken once, \<^verbatim>\<open>*\<close> or \<^verbatim>\<open>+\<close>. \<open>rmatch\<close> is the backtracking
  matcher for that fragment: a quantifier is greedy, it tries the longest run first and
  gives characters back one at a time. The result is what follows the match.
\<close>

datatype atom = One "jschar \<Rightarrow> bool" | Star "jschar \<Rightarrow> bool" | Plus "jschar \<Rightarrow> bool"

fun first_match :: "'a option list \<Rightarrow> 'a option" where
  "first_match [] = None"
| "first_match (None # xs) = first_match xs"
| "first_match (Some y # xs) = Some y"

fun rmatch :: "atom list \<Rightarrow> jsstring \<Rightarrow> jsstring option" where
  "rmatch [] s = Some s"
| "rmatch (One p # r) s =
     (case s of [] \<Rightarrow> None | c # s' \<Rightarrow> if p c then rmatch r s' else None)"
| "rmatch (Star p # r) s =
     first_match (map (\<lambda>k. rmatch r (drop k s)) (rev [0 ..< Suc (length (takeWhile p s))]))"
| "rmatch (Plus p # r) s =
     first_match (map (\<lambda>k. rmatch r (drop k s)) (rev [1 ..< Suc (length (takeWhile p s))]))"

declare rmatch.simps(3,4) [simp del]

text \<open>\<^verbatim>\<open>re.test(s)\<close> and \<^verbatim>\<open>s.replace(re, '')\<close> for an anchored expression without flags.\<close>

definition test :: "atom list \<Rightarrow> jsstring \<Rightarrow> bool" where
  "test re s = (rmatch re s \<noteq> None)"

definition replace_empty :: "atom list \<Rightarrow> jsstring \<Rightarrow> jsstring" where
  "replace_empty re s = (case rmatch re s of None \<Rightarrow> s | Some rest \<Rightarrow> rest)"

text \<open>\<^verbatim>\<open>/^#+\s*/\<close>\<close>

definition re_heading :: "atom list" where
  "re_heading = [Plus (\<lambda>c. c = 35), Star isSpace]"

text \<open>\<^verbatim>\<open>/^\d+[\).]\s*/\<close>\<close>

definition re_numbered :: "atom list" where
  "re_numbered = [Plus isDigit, One (\<lambda>c. c = 41 \<or> c = 46), Star isSpace]"

text \<open>\<^verbatim>\<open>/^[-*\<bullet>]\s*/\<close>, the third character of the class being U+2022.\<close>

definition re_bullet :: "atom list" where
  "re_bullet = [One (\<lambda>c. c = 45 \<or> c = 42 \<or> c = 8226), Star isSpace]"

text \<open>\<^verbatim>\<open>/^CLO\s*\d+\s*:/\<close>\<close>

definition re_clo :: "atom list" where
  "re_clo = [One (\<lambda>c. c = 67), One (\<lambda>c. c = 76), One (\<lambda>c. c = 79), Star isSpace,
     Plus isDigit, Star isSpace, One (\<lambda>c. c = 58)]"

section \<open>The output parser\<close>

text \<open>
  \<^verbatim>\<open>function linesToItems(text) {
    return String(text).split(/\r?\n/).map(s => s.trim())
      .filter(s => s && !/^#+\s*/.test(s))
      .map(s => s.replace(/^\d+[\).]\s*/, '').replace(/^[-*\<bullet>]\s*/, '')); }\<close>
\<close>

definition linesToItems :: "jsstring \<Rightarrow> jsstring list" where
  "linesToItems text =
     map (\<lambda>s. replace_empty re_bullet (replace_empty re_numbered s))
       (filter (\<lambda>s. s \<noteq> [] \<and> \<not> test re_heading s)
         (map trim (split_lines text)))"

text \<open>
  The value of the request's \<^verbatim>\<open>count\<close>, as far as the handler uses it. The handler
  renders it in a template literal, which is \<^verbatim>\<open>String(count)\<close>; it compares a length with
  it in \<^verbatim>\<open>items.length < count\<close>, which converts it as \<^verbatim>\<open>Number(count)\<close> does; and it
  passes it to \<^verbatim>\<open>slice(0, count)\<close>, which converts it in the same way and drops the
  fraction. So a value \<open>v\<close> is given by its rendering \<^verbatim>\<open>String(v)\<close> and by its conversion
  to a number \<^verbatim>\<open>Number(v)\<close>, a finite double being a rational number: 6 is \<^verbatim>\<open>"6"\<close> and
  6, \<^verbatim>\<open>true\<close> is \<^verbatim>\<open>"true"\<close> and 1,
  the string \<^verbatim>\<open>"2"\<close> and the array \<^verbatim>\<open>[2]\<close> are \<^verbatim>\<open>"2"\<close> and 2, 2.5 is \<^verbatim>\<open>"2.5"\<close> and 5/2,
  \<^verbatim>\<open>null\<close> is \<^verbatim>\<open>"null"\<close> and 0, the string \<^verbatim>\<open>"abc"\<close> is \<^verbatim>\<open>"abc"\<close> and \<open>NaN\<close>, an object is
  \<^verbatim>\<open>"[object Object]"\<close> and \<open>NaN\<close>, and the JSON number \<^verbatim>\<open>1e999\<close> is \<^verbatim>\<open>"Infinity"\<close> and
  \<open>PosInf\<close>.
\<close>

datatype jsnum = NaN | Fin rat | PosInf | NegInf

record count_val =
  rendering :: jsstring
  number :: jsnum

text \<open>An integer that a double holds and that renders in decimal digits.\<close>

definition int_count :: "int \<Rightarrow> count_val" where
  "int_count k = \<lparr>rendering = show_int k, number = Fin (of_int k)\<rparr>"

text \<open>The destructuring default \<^verbatim>\<open>count = 6\<close>: it applies when the field is absent.\<close>

definition count_of :: "count_val option \<Rightarrow> count_val" where
  "count_of c = (case c of None \<Rightarrow> int_count 6 | Some v \<Rightarrow> v)"

text \<open>\<^verbatim>\<open>n < count\<close> for a length \<open>n\<close>: false when \<open>count\<close> converts to \<open>NaN\<close>.\<close>

definition lt_count :: "nat \<Rightarrow> count_val \<Rightarrow> bool" where
  "lt_count n c =
     (case number c of
        NaN \<Rightarrow> False
      | Fin r \<Rightarrow> of_nat n < r
      | PosInf \<Rightarrow> True
      | NegInf \<Rightarrow> False)"

text \<open>The integer part of a finite number: the fraction is dropped, towards zero.\<close>

definition integer_part :: "rat \<Rightarrow> int" where
  "integer_part r = (if r < 0 then \<lceil>r\<rceil> else \<lfloor>r\<rfloor>)"

text \<open>
  \<^verbatim>\<open>xs.slice(0, count)\<close>: the end is the integer part of the number, \<open>NaN\<close> being taken as
  0; a negative end counts from the end of the array, and the end is clamped to the
  array.
\<close>

definition slice0 :: "'a list \<Rightarrow> count_val \<Rightarrow> 'a list" where
  "slice0 xs c =
     (case number c of
        NaN \<Rightarrow> take 0 xs
      | Fin r \<Rightarrow>
          if integer_part r < 0 then take (nat (max (int (length xs) + integer_part r) 0)) xs
          else take (nat (min (integer_part r) (int (length xs)))) xs
      | PosInf \<Rightarrow> take (length xs) xs
      | NegInf \<Rightarrow> take 0 xs)"

text \<open>
  The padding loop of \<^verbatim>\<open>/api/suggest\<close>:
  \<^verbatim>\<open>while (items.length < count) {
    const extras = linesToItems(raw).filter(s => !/^CLO\s*\d+\s*:/.test(s));
    if (!extras.length) break;
    items.push(`CLO${items.length+1}: ${extras.shift()}`); }\<close>
  \<open>extras\<close> is computed anew in every round. With an infinite \<^verbatim>\<open>count\<close> and a line to
  borrow the loop does not end: its value is then \<open>None\<close>.
\<close>

partial_function (option) pad_items ::
  "jsstring \<Rightarrow> count_val \<Rightarrow> jsstring list \<Rightarrow> jsstring list option" where
  "pad_items raw count items =
     (if lt_count (length items) count then
        (case filter (\<lambda>s. \<not> test re_clo s) (linesToItems raw) of
           [] \<Rightarrow> Some items
         | e # extras \<Rightarrow>
             pad_items raw count
               (items @ [js ''CLO'' @ show_nat (length items + 1) @ js '': '' @ e]))
      else Some items)"

text \<open>
  \<^verbatim>\<open>const items = linesToItems(raw).filter(line => /^CLO\s*\d+\s*:/.test(line)).slice(0, count);
  while ... ; res.json({ items: items.slice(0, count), raw, model: modelName })\<close>
\<close>

definition suggest_items :: "jsstring \<Rightarrow> count_val \<Rightarrow> jsstring list option" where
  "suggest_items raw count =
     map_option (\<lambda>items. slice0 items count)
       (pad_items raw count (slice0 (filter (test re_clo) (linesToItems raw)) count))"

subsection \<open>The parser as the specification words it\<close>

text \<open>
  The steps of the specification, without regular expressions: split at line feeds
  (a carriage return before one is white space and goes when the line is trimmed), trim,
  drop the empty lines and those that begin with \<^verbatim>\<open>#\<close>, strip a numbered-list marker
  (digits, then \<^verbatim>\<open>.\<close> or \<^verbatim>\<open>)\<close>, with the white space after it), then a bullet marker
  (\<^verbatim>\<open>-\<close>, \<^verbatim>\<open>*\<close> or U+2022, with the white space after it).
\<close>

fun lf_pieces :: "jsstring \<Rightarrow> jsstring list" where
  "lf_pieces [] = [[]]"
| "lf_pieces (c # s) =
     (if c = 10 then [] # lf_pieces s
      else (case lf_pieces s of [] \<Rightarrow> [[c]] | l # ls \<Rightarrow> (c # l) # ls))"

definition is_heading :: "jsstring \<Rightarrow> bool" where
  "is_heading s = (case s of [] \<Rightarrow> False | c # t \<Rightarrow> c = 35)"

definition strip_numbered :: "jsstring \<Rightarrow> jsstring" where
  "strip_numbered s =
     (case dropWhile isDigit s of
        [] \<Rightarrow> s
      | c # t \<Rightarrow>
          if takeWhile isDigit s \<noteq> [] \<and> (c = 41 \<or> c = 46) then dropWhile isSpace t else s)"

definition strip_bullet :: "jsstring \<Rightarrow> jsstring" where
  "strip_bullet s =
     (case s of
        [] \<Rightarrow> s
      | c # t \<Rightarrow> if c = 45 \<or> c = 42 \<or> c = 8226 then dropWhile isSpace t else s)"

definition spec_linesToItems :: "jsstring \<Rightarrow> jsstring list" where
  "spec_linesToItems text =
     map (\<lambda>s. strip_bullet (strip_numbered s))
       (filter (\<lambda>s. s \<noteq> [] \<and> \<not> is_heading s) (map trim (lf_pieces text)))"

text \<open>
  A line carries the item prefix when it reads \<^verbatim>\<open>CLO\<close>, optional white space, one or more
  digits, optional white space and a colon.
\<close>

definition has_item_prefix :: "jsstring \<Rightarrow> bool" where
  "has_item_prefix s =
     (case s of
        c1 # c2 # c3 # t \<Rightarrow>
          c1 = 67 \<and> c2 = 76 \<and> c3 = 79 \<and> takeWhile isDigit (dropWhile isSpace t) \<noteq> []
          \<and> (case dropWhile isSpace (dropWhile isDigit (dropWhile isSpace t)) of
                [] \<Rightarrow> False
              | c # u \<Rightarrow> c = 58)
      | _ \<Rightarrow> False)"

section \<open>Requests\<close>

text \<open>
  \<^verbatim>\<open>toLowerCase\<close> and \<^verbatim>\<open>toUpperCase\<close> are the JavaScript engine's Unicode case mappings,
  tables that are no part of the repository. The functions that call them take them as
  the parameter \<open>U\<close>; \<open>ascii\<close> is the instance that maps the ASCII letters only.
\<close>

record unicode =
  toLowerCase :: "jsstring \<Rightarrow> jsstring"
  toUpperCase :: "jsstring \<Rightarrow> jsstring"

definition ascii :: unicode where
  "ascii = \<lparr>toLowerCase = map (\<lambda>c. if 65 \<le> c \<and> c \<le> 90 then c + 32 else c),
             toUpperCase = map (\<lambda>c. if 97 \<le> c \<and> c \<le> 122 then c - 32 else c)\<rparr>"

text \<open>
  The request body, typed as the client sends it: a field is absent (\<open>None\<close>) or holds a
  value of its JSON type. An element of \<^verbatim>\<open>bloomVerbs\<close> is seen by \<^verbatim>\<open>norm\<close> as a falsy value
  that is no string (\<^verbatim>\<open>null\<close>, \<^verbatim>\<open>false\<close>, 0), as a string, or as any other value \<open>x\<close>: an
  object, and also an array, \<^verbatim>\<open>true\<close> or a number, which have no field \<^verbatim>\<open>verb\<close>. Of such
  an \<open>x\<close> the code reads \<^verbatim>\<open>String(x.verb || '')\<close> and \<^verbatim>\<open>String(x.level || '')\<close>: \<open>Obj v l\<close> is
  a value for which these two strings are \<open>v\<close> and \<open>l\<close>.
\<close>

datatype scalar = SStr jsstring | SInt int

datatype verb_in = Falsy | Str jsstring | Obj jsstring jsstring

record course =
  c_label :: "jsstring option"
  c_id :: "jsstring option"
  c_fullname :: "jsstring option"
  c_tong :: "scalar option"
  c_credits :: "scalar option"

record body =
  plo :: "jsstring option"
  ploText :: "jsstring option"
  cloText :: "jsstring option"
  course :: "course option"
  levelFromBody :: "jsstring option"
  linkLevelFromBody :: "jsstring option"
  bloomVerbs :: "verb_in list option"
  count :: "count_val option"
  model :: "jsstring option"
  prompt :: "jsstring option"
  max_tokens :: "rat option"

text \<open>\<^verbatim>\<open>{}\<close>, the default of \<^verbatim>\<open>course\<close> and of \<^verbatim>\<open>req.body\<close>.\<close>

definition no_course :: course where
  "no_course = \<lparr>c_label = None, c_id = None, c_fullname = None, c_tong = None, c_credits = None\<rparr>"

definition no_body :: body where
  "no_body = \<lparr>plo = None, ploText = None, cloText = None, course = None, levelFromBody = None,
     linkLevelFromBody = None, bloomVerbs = None, count = None, model = None, prompt = None,
     max_tokens = None\<rparr>"

text \<open>\<^verbatim>\<open>req.body || {}\<close>\<close>

definition body_of :: "body option \<Rightarrow> body" where
  "body_of req_body = (case req_body of None \<Rightarrow> no_body | Some b \<Rightarrow> b)"

text \<open>\<^verbatim>\<open>x || ''\<close> and a destructuring default \<^verbatim>\<open>x = ''\<close> on an optional string.\<close>

definition orEmpty :: "jsstring option \<Rightarrow> jsstring" where
  "orEmpty x = (case x of None \<Rightarrow> [] | Some s \<Rightarrow> s)"

text \<open>\<^verbatim>\<open>${x}\<close> in a template literal: an absent value renders as the word \<^verbatim>\<open>undefined\<close>.\<close>

definition tpl :: "jsstring option \<Rightarrow> jsstring" where
  "tpl x = (case x of None \<Rightarrow> js ''undefined'' | Some s \<Rightarrow> s)"

definition show_scalar :: "scalar \<Rightarrow> jsstring" where
  "show_scalar v = (case v of SStr s \<Rightarrow> s | SInt i \<Rightarrow> show_int i)"

section \<open>The verb pool\<close>

record verb_entry =
  verb :: jsstring
  level :: jsstring

text \<open>
  \<^verbatim>\<open>const norm = (x) => {
    if (!x) return null;
    if (typeof x === 'string') return { verb: x.trim(), level: '' };
    const v = String(x.verb || '').trim();
    const l = String(x.level || '').trim();
    return v ? { verb: v, level: l } : null; };\<close>
\<close>

definition norm :: "verb_in \<Rightarrow> verb_entry option" where
  "norm x =
     (case x of
        Falsy \<Rightarrow> None
      | Str s \<Rightarrow> if s = [] then None else Some \<lparr>verb = trim s, level = []\<rparr>
      | Obj xv xl \<Rightarrow>
          (let v = trim xv; l = trim xl
           in if v \<noteq> [] then Some \<lparr>verb = v, level = l\<rparr> else None))"

definition bloom_I :: "jsstring list" where
  "bloom_I = [js ''Remember'', js ''Understand'']"

definition LEVEL2BLOOM :: "(jsstring \<times> jsstring list) list" where
  "LEVEL2BLOOM =
     [(js ''I'', bloom_I),
      (js ''R'', [js ''Apply'', js ''Analyze'']),
      (js ''M'', [js ''Analyze'', js ''Evaluate'']),
      (js ''A'', [js ''Evaluate'', js ''Create''])]"

text \<open>
  \<^verbatim>\<open>const LEVEL = linkLevelFromBody ?? levelFromBody ?? 'I';
  const linkLevel = String(LEVEL).toUpperCase();
  const targetBloomLevels = LEVEL2BLOOM[linkLevel] || LEVEL2BLOOM.I;\<close>
  The table is looked up by its own four keys: the names an object inherits all contain
  lower-case letters, which an upper-cased string does not.
\<close>

definition linkLevel_of :: "unicode \<Rightarrow> body \<Rightarrow> jsstring" where
  "linkLevel_of U b =
     toUpperCase U
       (case linkLevelFromBody b of
          Some s \<Rightarrow> s
        | None \<Rightarrow> (case levelFromBody b of Some s \<Rightarrow> s | None \<Rightarrow> js ''I''))"

definition targetBloomLevels :: "jsstring \<Rightarrow> jsstring list" where
  "targetBloomLevels linkLevel =
     (case map_of LEVEL2BLOOM linkLevel of Some ls \<Rightarrow> ls | None \<Rightarrow> bloom_I)"

text \<open>
  \<^verbatim>\<open>for (const it of filtered) {
    const k = it.verb.toLowerCase();
    if (!seen.has(k)) { seen.add(k); uniq.push(it); } }\<close>
\<close>

fun uniq_loop ::
  "unicode \<Rightarrow> jsstring set \<Rightarrow> verb_entry list \<Rightarrow> verb_entry list \<Rightarrow> verb_entry list" where
  "uniq_loop U seen uniq [] = uniq"
| "uniq_loop U seen uniq (it # rest) =
     (let k = toLowerCase U (verb it)
      in if k \<notin> seen then uniq_loop U (insert k seen) (uniq @ [it]) rest
         else uniq_loop U seen uniq rest)"

declare uniq_loop.simps(2) [simp del]

text \<open>
  The entries after \<^verbatim>\<open>.map(norm).filter(Boolean)\<close>, the choice between \<^verbatim>\<open>byTarget\<close> and
  the whole list, and the loop above. Both \<^verbatim>\<open>/api/suggest\<close> and \<^verbatim>\<open>/api/evaluate\<close> compute
  it, with the same code.
\<close>

definition normalized :: "verb_in list option \<Rightarrow> verb_entry list" where
  "normalized bv = List.map_filter norm (case bv of None \<Rightarrow> [] | Some xs \<Rightarrow> xs)"

definition byTarget :: "jsstring list \<Rightarrow> verb_entry list \<Rightarrow> verb_entry list" where
  "byTarget targets xs = filter (\<lambda>x. level x \<in> set targets) xs"

definition uniq_verbs :: "unicode \<Rightarrow> jsstring list \<Rightarrow> verb_in list option \<Rightarrow> verb_entry list" where
  "uniq_verbs U targets bv =
     (let filtered = normalized bv;
          matched = byTarget targets filtered
      in uniq_loop U {} [] (if matched \<noteq> [] then matched else filtered))"

fun join :: "jsstring \<Rightarrow> jsstring list \<Rightarrow> jsstring" where
  "join sep [] = []"
| "join sep [x] = x"
| "join sep (x # y # ys) = x @ sep @ join sep (y # ys)"

text \<open>
  \<^verbatim>\<open>uniq.slice(0, MAX_VERBS).map(it => `${it.verb} (${it.level || '\<emdash>'})`).join(', ')\<close>,
  the dash being U+2014; \<^verbatim>\<open>MAX_VERBS\<close> is 180 in \<^verbatim>\<open>/api/suggest\<close> and 150 in
  \<^verbatim>\<open>/api/evaluate\<close>.
\<close>

definition render_verb :: "verb_entry \<Rightarrow> jsstring" where
  "render_verb it = verb it @ js '' ('' @ (if level it \<noteq> [] then level it else [8212]) @ js '')''"

definition verbsForPrompt :: "nat \<Rightarrow> verb_entry list \<Rightarrow> jsstring" where
  "verbsForPrompt MAX_VERBS uniq = join (js '', '') (map render_verb (take MAX_VERBS uniq))"

text \<open>
  \<^verbatim>\<open>fallbackVerbs\<close>, six Vietnamese verbs (describe, explain, apply, analyse, evaluate,
  build), by their code units: the first is \<^verbatim>\<open>M\<close>, U+00F4, a space, \<^verbatim>\<open>t\<close>, U+1EA3.
\<close>

definition fallbackVerbs :: "jsstring list" where
  "fallbackVerbs =
     [[77, 244, 32, 116, 7843],
      [71, 105, 7843, 105, 32, 116, 104, 237, 99, 104],
      [86, 7853, 110, 32, 100, 7909, 110, 103],
      [80, 104, 226, 110, 32, 116, 237, 99, 104],
      [272, 225, 110, 104, 32, 103, 105, 225],
      [88, 226, 121, 32, 100, 7921, 110, 103]]"

text \<open>\<^verbatim>\<open>const VERB_LIST = verbsForPrompt || fallbackVerbs.join(', ');\<close>\<close>

definition VERB_LIST :: "nat \<Rightarrow> verb_entry list \<Rightarrow> jsstring" where
  "VERB_LIST MAX_VERBS uniq =
     (if verbsForPrompt MAX_VERBS uniq \<noteq> [] then verbsForPrompt MAX_VERBS uniq
      else join (js '', '') fallbackVerbs)"

section \<open>The prompts\<close>

text \<open>
  \<^verbatim>\<open>const courseLabel = (course.label || course.id || '').trim();
  const courseFull  = (course.fullname || '').trim();
  const credits     = (course.tong ?? course.credits ?? '').toString();\<close>
\<close>

definition courseLabel :: "course \<Rightarrow> jsstring" where
  "courseLabel c =
     trim (if orEmpty (c_label c) \<noteq> [] then orEmpty (c_label c) else orEmpty (c_id c))"

definition courseFull :: "course \<Rightarrow> jsstring" where
  "courseFull c = trim (orEmpty (c_fullname c))"

definition credits :: "course \<Rightarrow> jsstring" where
  "credits c =
     (case c_tong c of
        Some v \<Rightarrow> show_scalar v
      | None \<Rightarrow> (case c_credits c of Some v \<Rightarrow> show_scalar v | None \<Rightarrow> []))"

text \<open>
  A prompt is a template literal, trimmed. Its fixed Vietnamese prose does not matter to
  any property below: \<open>T i\<close> stands for the \<open>i\<close>-th literal run of the template, counted from
  0 in source order, and the interpolations stand between the runs as in the source. In
  \<^verbatim>\<open>/api/suggest\<close> the interpolations are, in order, \<^verbatim>\<open>count\<close>, \<^verbatim>\<open>courseLabel\<close>,
  \<^verbatim>\<open>courseFull\<close>, \<^verbatim>\<open>credits\<close>, \<^verbatim>\<open>linkLevel\<close>, \<^verbatim>\<open>plo\<close>, \<^verbatim>\<open>ploText\<close>, \<^verbatim>\<open>linkLevel\<close>,
  \<^verbatim>\<open>VERB_LIST\<close>, \<^verbatim>\<open>count\<close>, \<^verbatim>\<open>count\<close>.
\<close>

definition suggest_prompt :: "unicode \<Rightarrow> (nat \<Rightarrow> jsstring) \<Rightarrow> body \<Rightarrow> jsstring" where
  "suggest_prompt U T b =
     (let cnt = count_of (count b);
          crs = (case course b of None \<Rightarrow> no_course | Some c \<Rightarrow> c);
          linkLevel = linkLevel_of U b;
          verbs = VERB_LIST 180 (uniq_verbs U (targetBloomLevels linkLevel) (bloomVerbs b))
      in trim (T 0 @ rendering cnt @ T 1 @ courseLabel crs @ T 2 @ courseFull crs @ T 3
           @ credits crs @ T 4 @ linkLevel @ T 5 @ tpl (plo b) @ T 6 @ orEmpty (ploText b)
           @ T 7 @ linkLevel @ T 8 @ verbs @ T 9 @ rendering cnt @ T 10 @ rendering cnt
           @ T 11))"

text \<open>
  In \<^verbatim>\<open>/api/evaluate\<close> the interpolations are \<^verbatim>\<open>courseLabel\<close>, \<^verbatim>\<open>courseFull\<close>, \<^verbatim>\<open>credits\<close>,
  \<^verbatim>\<open>plo\<close>, \<^verbatim>\<open>ploText\<close>, \<^verbatim>\<open>linkLevel\<close>, \<^verbatim>\<open>linkLevel\<close>, \<^verbatim>\<open>VERB_LIST\<close>, \<^verbatim>\<open>cloText\<close>,
  \<^verbatim>\<open>linkLevel\<close>.
\<close>

definition evaluate_prompt :: "unicode \<Rightarrow> (nat \<Rightarrow> jsstring) \<Rightarrow> body \<Rightarrow> jsstring" where
  "evaluate_prompt U T b =
     (let crs = (case course b of None \<Rightarrow> no_course | Some c \<Rightarrow> c);
          linkLevel = linkLevel_of U b;
          verbs = VERB_LIST 150 (uniq_verbs U (targetBloomLevels linkLevel) (bloomVerbs b))
      in trim (T 0 @ courseLabel crs @ T 1 @ courseFull crs @ T 2 @ credits crs @ T 3
           @ tpl (plo b) @ T 4 @ orEmpty (ploText b) @ T 5 @ linkLevel @ T 6 @ linkLevel
           @ T 7 @ verbs @ T 8 @ orEmpty (cloText b) @ T 9 @ linkLevel @ T 10))"

section \<open>The completion invoker\<close>

text \<open>
  The completion parameters are a JavaScript object that refers to two nested objects
  (\<^verbatim>\<open>text\<close>, \<^verbatim>\<open>reasoning\<close>); the fallback copies it with the spread operator and deletes
  properties of the copy. Whether the caller's objects change depends on which objects
  the copy shares, so objects live in a store: an object is a list of properties in
  insertion order, a reference \<open>VRef a\<close> is an index into the store, and a new object is
  appended to it.
\<close>

datatype val = VUndefined | VNull | VBool bool | VNum rat | VStr jsstring | VRef nat

type_synonym obj = "(string \<times> val) list"
type_synonym heap = "obj list"

fun truthy :: "val \<Rightarrow> bool" where
  "truthy VUndefined = False"
| "truthy VNull = False"
| "truthy (VBool b) = b"
| "truthy (VNum r) = (r \<noteq> 0)"
| "truthy (VStr s) = (s \<noteq> [])"
| "truthy (VRef a) = True"

text \<open>
  \<^verbatim>\<open>v?.k\<close>: \<^verbatim>\<open>undefined\<close> when \<open>v\<close> is \<^verbatim>\<open>undefined\<close> or \<^verbatim>\<open>null\<close>; a primitive value has none
  of the properties read here (\<^verbatim>\<open>text\<close>, \<^verbatim>\<open>verbosity\<close>, \<^verbatim>\<open>reasoning\<close>, \<^verbatim>\<open>effort\<close>).
\<close>

definition get_prop :: "heap \<Rightarrow> val \<Rightarrow> string \<Rightarrow> val" where
  "get_prop h v k =
     (case v of
        VRef a \<Rightarrow>
          if a < length h then (case map_of (h ! a) k of Some x \<Rightarrow> x | None \<Rightarrow> VUndefined)
          else VUndefined
      | _ \<Rightarrow> VUndefined)"

definition alloc :: "heap \<Rightarrow> obj \<Rightarrow> val \<times> heap" where
  "alloc h ob = (VRef (length h), h @ [ob])"

text \<open>
  The properties \<^verbatim>\<open>{ ...v }\<close> copies: those of the object, none for \<^verbatim>\<open>undefined\<close>, \<^verbatim>\<open>null\<close>,
  a boolean or a number. (The characters of a string are not modelled; no value spread
  below is a string.)
\<close>

definition spread :: "heap \<Rightarrow> val \<Rightarrow> obj" where
  "spread h v = (case v of VRef a \<Rightarrow> if a < length h then h ! a else [] | _ \<Rightarrow> [])"

text \<open>A property written in an object literal after a spread: it replaces the one copied
  under the same name, in its place, or is added at the end.\<close>

definition set_key :: "obj \<Rightarrow> string \<Rightarrow> val \<Rightarrow> obj" where
  "set_key ob k v =
     (if k \<in> fst ` set ob then map (\<lambda>(k', v'). if k' = k then (k', v) else (k', v')) ob
      else ob @ [(k, v)])"

definition delete_key :: "obj \<Rightarrow> string \<Rightarrow> obj" where
  "delete_key ob k = filter (\<lambda>(k', v'). k' \<noteq> k) ob"

text \<open>\<^verbatim>\<open>delete v.k\<close>, in place, on the object \<open>v\<close> refers to.\<close>

definition delete_prop :: "heap \<Rightarrow> val \<Rightarrow> string \<Rightarrow> heap" where
  "delete_prop h v k =
     (case v of
        VRef a \<Rightarrow> if a < length h then h[a := delete_key (h ! a) k] else h
      | _ \<Rightarrow> h)"

text \<open>\<^verbatim>\<open>params?.text?.verbosity\<close> and \<^verbatim>\<open>params?.reasoning?.effort\<close>, as conditions.\<close>

definition has_verbosity :: "heap \<Rightarrow> val \<Rightarrow> bool" where
  "has_verbosity h params = truthy (get_prop h (get_prop h params ''text'') ''verbosity'')"

definition has_effort :: "heap \<Rightarrow> val \<Rightarrow> bool" where
  "has_effort h params = truthy (get_prop h (get_prop h params ''reasoning'') ''effort'')"

text \<open>
  Fallback 1:
  \<^verbatim>\<open>const p2 = { ...params, text: { ...(params.text || {}) } };
  delete p2.text.verbosity;\<close>
  The properties of \<^verbatim>\<open>params\<close> are copied, then the inner literal is built (a falsy
  \<^verbatim>\<open>params.text\<close> gives the empty object, which has nothing to copy) and stored under
  \<^verbatim>\<open>text\<close>. The \<^verbatim>\<open>delete\<close> goes through the store: it changes the object that
  \<^verbatim>\<open>p2.text\<close> refers to at that moment.
\<close>

definition strip_verbosity :: "heap \<Rightarrow> val \<Rightarrow> val \<times> heap" where
  "strip_verbosity h params =
     (let copied = spread h params;
          t = get_prop h params ''text'';
          (t2, h1) = alloc h (spread h (if truthy t then t else VUndefined));
          (p2, h2) = alloc h1 (set_key copied ''text'' t2)
      in (p2, delete_prop h2 (get_prop h2 p2 ''text'') ''verbosity''))"

text \<open>
  Fallback 2:
  \<^verbatim>\<open>const p2 = { ...params };
  delete p2.reasoning;\<close>
\<close>

definition strip_reasoning :: "heap \<Rightarrow> val \<Rightarrow> val \<times> heap" where
  "strip_reasoning h params =
     (let (p2, h1) = alloc h (spread h params)
      in (p2, delete_prop h1 p2 ''reasoning''))"

text \<open>
  What the upstream call returns or throws. Of the response the handlers read
  \<^verbatim>\<open>output_text\<close> only, absent or \<^verbatim>\<open>null\<close> being \<open>None\<close>; of the error the invoker reads
  \<^verbatim>\<open>message\<close> only.
\<close>

record response =
  output_text :: "jsstring option"

record error =
  message :: "jsstring option"

record flags =
  stripVerbosity :: bool
  stripReasoning :: bool

text \<open>The fallbacks the flags still allow: one for each flag that is not set.\<close>

definition budget :: "flags \<Rightarrow> nat" where
  "budget fl = (if stripVerbosity fl then 0 else 1) + (if stripReasoning fl then 0 else 1)"

text \<open>
  The store, and the outcomes of the upstream calls made so far, oldest first.
  \<^verbatim>\<open>client.responses.create\<close> is the hosted API: \<open>create n h p\<close> is the outcome of call
  number \<open>n\<close> (counted from 0) on the parameters \<open>p\<close> in the store \<open>h\<close>, and it is arbitrary.
  The call reads the parameters and leaves them as they are.
\<close>

record world =
  objs :: heap
  trace :: "(error + response) list"

type_synonym upstream = "nat \<Rightarrow> heap \<Rightarrow> val \<Rightarrow> error + response"

text \<open>
  \<^verbatim>\<open>const msg = (e?.message || '').toLowerCase();
  const isUnknownParam = msg.includes('unknown') || msg.includes('unrecognized') ||
    msg.includes('invalid parameter') || msg.includes('unsupported');\<close>
\<close>

definition isUnknownParam :: "unicode \<Rightarrow> error \<Rightarrow> bool" where
  "isUnknownParam U e =
     (let msg = toLowerCase U (orEmpty (message e))
      in str_includes msg (js ''unknown'') \<or> str_includes msg (js ''unrecognized'')
         \<or> str_includes msg (js ''invalid parameter'') \<or> str_includes msg (js ''unsupported''))"

text \<open>
  \<^verbatim>\<open>async function createResponseWithFallback(params,
      { stripVerbosity = false, stripReasoning = false } = {}) {
    try { return await client.responses.create(params); }
    catch (e) {
      const msg = ...; const isUnknownParam = ...;
      if (!stripVerbosity && params?.text?.verbosity) {
        ... return await createResponseWithFallback(p2, { stripVerbosity: true, stripReasoning }); }
      if (!stripReasoning && params?.reasoning?.effort) {
        ... return await createResponseWithFallback(p2,
              { stripVerbosity: true, stripReasoning: true }); }
      throw e; } }\<close>
  A thrown error is \<open>Inl\<close>. Each recursive call sets a flag that was not set, which is
  why the recursion ends.
\<close>

function createResponseWithFallback ::
  "unicode \<Rightarrow> upstream \<Rightarrow> world \<Rightarrow> val \<Rightarrow> flags \<Rightarrow> (error + response) \<times> world" where
  "createResponseWithFallback U create w params fl =
     (case create (length (trace w)) (objs w) params of
        Inr rsp \<Rightarrow> (Inr rsp, w\<lparr>trace := trace w @ [Inr rsp]\<rparr>)
      | Inl e \<Rightarrow>
          (let w1 = w\<lparr>trace := trace w @ [Inl e]\<rparr>;
               unknownParam = isUnknownParam U e
           in if \<not> stripVerbosity fl \<and> has_verbosity (objs w1) params
              then
                createResponseWithFallback U create
                  (w1\<lparr>objs := snd (strip_verbosity (objs w1) params)\<rparr>)
                  (fst (strip_verbosity (objs w1) params))
                  \<lparr>stripVerbosity = True, stripReasoning = stripReasoning fl\<rparr>
              else if \<not> stripReasoning fl \<and> has_effort (objs w1) params
              then
                createResponseWithFallback U create
                  (w1\<lparr>objs := snd (strip_reasoning (objs w1) params)\<rparr>)
                  (fst (strip_reasoning (objs w1) params))
                  \<lparr>stripVerbosity = True, stripReasoning = True\<rparr>
              else (Inl e, w1)))"
  by pat_completeness auto
termination
  by (relation "measure (\<lambda>(U, create, w, params, fl). budget fl)")
     (auto simp: budget_def)

declare createResponseWithFallback.simps [simp del]

section \<open>The endpoints\<close>

text \<open>
  The configuration read at start-up: \<^verbatim>\<open>MODEL_MODE\<close> is the environment's value in lower
  case (\<^verbatim>\<open>auto\<close> when unset), \<^verbatim>\<open>DEFAULT_MODEL\<close> the environment's \<^verbatim>\<open>MODEL\<close> or \<^verbatim>\<open>gpt-5\<close>.
\<close>

record config =
  MODEL_MODE :: jsstring
  DEFAULT_MODEL :: jsstring

text \<open>
  \<^verbatim>\<open>function pickModel(kind, overrideModel) {
    if (overrideModel) return overrideModel;
    const full = 'gpt-5'; const mini = 'gpt-5-mini';
    if (MODEL_MODE === 'full') return full;
    if (MODEL_MODE === 'mini') return mini;
    if (kind === 'suggest') return mini;
    if (kind === 'evaluate') return full;
    return DEFAULT_MODEL; }\<close>
\<close>

definition pickModel :: "config \<Rightarrow> jsstring \<Rightarrow> jsstring option \<Rightarrow> jsstring" where
  "pickModel cfg kind overrideModel =
     (if orEmpty overrideModel \<noteq> [] then orEmpty overrideModel
      else if MODEL_MODE cfg = js ''full'' then js ''gpt-5''
      else if MODEL_MODE cfg = js ''mini'' then js ''gpt-5-mini''
      else if kind = js ''suggest'' then js ''gpt-5-mini''
      else if kind = js ''evaluate'' then js ''gpt-5''
      else DEFAULT_MODEL cfg)"

text \<open>
  What a handler sends: the status (200 when \<^verbatim>\<open>res.json\<close> is called alone) and the JSON
  body, which is \<^verbatim>\<open>{items, raw, model}\<close>, \<^verbatim>\<open>{text, model}\<close> or \<^verbatim>\<open>{error}\<close>.
\<close>

datatype reply =
  Items "jsstring list" jsstring jsstring
| Text jsstring jsstring
| Failed string

record http =
  status :: nat
  json :: reply

text \<open>
  The object literals the handlers pass to the invoker, built in an empty store: the
  nested objects first, then the parameters.
  \<^verbatim>\<open>{ model: modelName, input: prompt, text: { verbosity: 'low' },
    reasoning: { effort: 'minimal' }, max_output_tokens: 900, temperature: 0.4 }\<close>
\<close>

definition suggest_params :: "jsstring \<Rightarrow> jsstring \<Rightarrow> val \<times> heap" where
  "suggest_params modelName input =
     (let (t, h1) = alloc [] [(''verbosity'', VStr (js ''low''))];
          (r, h2) = alloc h1 [(''effort'', VStr (js ''minimal''))]
      in alloc h2 [(''model'', VStr modelName), (''input'', VStr input), (''text'', t),
           (''reasoning'', r), (''max_output_tokens'', VNum 900), (''temperature'', VNum (4 / 10))])"

text \<open>
  \<^verbatim>\<open>{ model: modelName, input: prompt, text: { verbosity: 'medium' },
    reasoning: { effort: 'medium' }, max_output_tokens: 600, temperature: 0.2 }\<close>
\<close>

definition evaluate_params :: "jsstring \<Rightarrow> jsstring \<Rightarrow> val \<times> heap" where
  "evaluate_params modelName input =
     (let (t, h1) = alloc [] [(''verbosity'', VStr (js ''medium''))];
          (r, h2) = alloc h1 [(''effort'', VStr (js ''medium''))]
      in alloc h2 [(''model'', VStr modelName), (''input'', VStr input), (''text'', t),
           (''reasoning'', r), (''max_output_tokens'', VNum 600), (''temperature'', VNum (2 / 10))])"

text \<open>
  \<^verbatim>\<open>{ model: modelName, input: prompt, text: { verbosity: 'low' },
    max_output_tokens: max_tokens }\<close>
\<close>

definition raw_params :: "jsstring \<Rightarrow> jsstring \<Rightarrow> rat \<Rightarrow> val \<times> heap" where
  "raw_params modelName input max_tok =
     (let (t, h1) = alloc [] [(''verbosity'', VStr (js ''low''))]
      in alloc h1 [(''model'', VStr modelName), (''input'', VStr input), (''text'', t),
           (''max_output_tokens'', VNum max_tok)])"

definition invoke :: "unicode \<Rightarrow> upstream \<Rightarrow> val \<times> heap \<Rightarrow> (error + response) \<times> world" where
  "invoke U create ph =
     createResponseWithFallback U create \<lparr>objs = snd ph, trace = []\<rparr> (fst ph)
       \<lparr>stripVerbosity = False, stripReasoning = False\<rparr>"

text \<open>
  \<^verbatim>\<open>app.post('/api/suggest', async (req, res) => {
    try { const { ..., count = 6, model } = req.body || {}; ...
      const modelName = pickModel('suggest', model);
      const rsp = await createResponseWithFallback({...});
      const raw = rsp.output_text || '';
      const items = ...;
      res.json({ items: items.slice(0, count), raw, model: modelName });
    } catch (err) { ...; res.status(500).json({ error: 'suggest_failed' }); } });\<close>
  With a body of the type above nothing but the invoker throws. \<open>suggest_invocation\<close> is
  the outcome of the handler's call of the invoker. The handler sends one reply, or none
  (\<open>None\<close>) when its padding loop does not end.
\<close>

definition suggest_invocation ::
  "unicode \<Rightarrow> config \<Rightarrow> (nat \<Rightarrow> jsstring) \<Rightarrow> upstream \<Rightarrow> body option \<Rightarrow> error + response" where
  "suggest_invocation U cfg T create req_body =
     fst (invoke U create
       (suggest_params (pickModel cfg (js ''suggest'') (model (body_of req_body)))
          (suggest_prompt U T (body_of req_body))))"

definition api_suggest ::
  "unicode \<Rightarrow> config \<Rightarrow> (nat \<Rightarrow> jsstring) \<Rightarrow> upstream \<Rightarrow> body option \<Rightarrow> http option" where
  "api_suggest U cfg T create req_body =
     (let b = body_of req_body;
          cnt = count_of (count b);
          modelName = pickModel cfg (js ''suggest'') (model b)
      in case suggest_invocation U cfg T create req_body of
           Inl err \<Rightarrow> Some \<lparr>status = 500, json = Failed ''suggest_failed''\<rparr>
         | Inr rsp \<Rightarrow>
             (let raw_text = orEmpty (output_text rsp)
              in map_option
                   (\<lambda>items. \<lparr>status = 200, json = Items items raw_text modelName\<rparr>)
                   (suggest_items raw_text cnt)))"

text \<open>
  \<^verbatim>\<open>app.post('/api/evaluate', ...)\<close>:
  \<^verbatim>\<open>const text = rsp.output_text || ''; res.json({ text, model: modelName });\<close> and
  \<^verbatim>\<open>res.status(500).json({ error: 'evaluate_failed' })\<close> in the \<^verbatim>\<open>catch\<close>.
\<close>

definition evaluate_invocation ::
  "unicode \<Rightarrow> config \<Rightarrow> (nat \<Rightarrow> jsstring) \<Rightarrow> upstream \<Rightarrow> body option \<Rightarrow> error + response" where
  "evaluate_invocation U cfg T create req_body =
     fst (invoke U create
       (evaluate_params (pickModel cfg (js ''evaluate'') (model (body_of req_body)))
          (evaluate_prompt U T (body_of req_body))))"

definition api_evaluate ::
  "unicode \<Rightarrow> config \<Rightarrow> (nat \<Rightarrow> jsstring) \<Rightarrow> upstream \<Rightarrow> body option \<Rightarrow> http" where
  "api_evaluate U cfg T create req_body =
     (let modelName = pickModel cfg (js ''evaluate'') (model (body_of req_body))
      in case evaluate_invocation U cfg T create req_body of
           Inl err \<Rightarrow> \<lparr>status = 500, json = Failed ''evaluate_failed''\<rparr>
         | Inr rsp \<Rightarrow> \<lparr>status = 200, json = Text (orEmpty (output_text rsp)) modelName\<rparr>)"

text \<open>
  \<^verbatim>\<open>app.post('/api/raw', async (req, res) => {
    try { const { prompt = '', max_tokens = 600, model } = req.body || {};
      const modelName = model || DEFAULT_MODEL;
      const rsp = await createResponseWithFallback({...});
      res.json({ text: rsp.output_text || '', model: modelName });
    } catch (err) { ...; res.status(500).json({ error: 'raw_failed' }); } });\<close>
\<close>

definition raw_model :: "config \<Rightarrow> body \<Rightarrow> jsstring" where
  "raw_model cfg b = (if orEmpty (model b) \<noteq> [] then orEmpty (model b) else DEFAULT_MODEL cfg)"

definition raw_invocation :: "unicode \<Rightarrow> config \<Rightarrow> upstream \<Rightarrow> body option \<Rightarrow> error + response" where
  "raw_invocation U cfg create req_body =
     (let b = body_of req_body;
          max_tok = (case max_tokens b of None \<Rightarrow> 600 | Some m \<Rightarrow> m)
      in fst (invoke U create (raw_params (raw_model cfg b) (orEmpty (prompt b)) max_tok)))"

definition api_raw :: "unicode \<Rightarrow> config \<Rightarrow> upstream \<Rightarrow> body option \<Rightarrow> http" where
  "api_raw U cfg create req_body =
     (case raw_invocation U cfg create req_body of
        Inl err \<Rightarrow> \<lparr>status = 500, json = Failed ''raw_failed''\<rparr>
      | Inr rsp \<Rightarrow>
          \<lparr>status = 200, json = Text (orEmpty (output_text rsp)) (raw_model cfg (body_of req_body))\<rparr>)"

section \<open>Example inputs\<close>

text \<open>
  Concrete inputs on which the theorems below are run: an error that is no complaint
  about a parameter, upstreams that fail on every call, on the first two calls only, or
  never, a configuration, a template without prose, and an answer of nine item lines.
\<close>

definition rate_limited :: error where
  "rate_limited = \<lparr>message = Some (js ''rate limit exceeded'')\<rparr>"

definition always_fails :: upstream where
  "always_fails = (\<lambda>n h p. Inl rate_limited)"

definition fails_twice :: "jsstring \<Rightarrow> upstream" where
  "fails_twice answer =
     (\<lambda>n h p. if n < 2 then Inl rate_limited else Inr \<lparr>output_text = Some answer\<rparr>)"

definition answers :: "jsstring option \<Rightarrow> upstream" where
  "answers answer = (\<lambda>n h p. Inr \<lparr>output_text = answer\<rparr>)"

definition cfg_auto :: config where
  "cfg_auto = \<lparr>MODEL_MODE = js ''auto'', DEFAULT_MODEL = js ''gpt-5''\<rparr>"

definition no_prose :: "nat \<Rightarrow> jsstring" where
  "no_prose i = []"

definition nine_lines :: jsstring where
  "nine_lines =
     js ''CLO1: a'' @ [10] @ js ''CLO2: b'' @ [10] @ js ''CLO3: c'' @ [10] @ js ''CLO4: d''
       @ [10] @ js ''CLO5: e'' @ [10] @ js ''CLO6: f'' @ [10] @ js ''CLO7: g'' @ [10]
       @ js ''CLO8: h'' @ [10] @ js ''CLO9: i''"

section \<open>Properties of the matcher\<close>

text \<open>
  In each expression of the parser a character given back by a quantifier cannot begin
  what follows it, so backtracking never finds a second match and each expression reads
  as a plain scan.
\<close>

lemma first_match_all_None:
  "(\<And>x. x \<in> set xs \<Longrightarrow> f x = None) \<Longrightarrow> first_match (map f xs) = None"
  by (induction xs) auto

lemma first_match_head:
  assumes "f n \<noteq> None \<or> (\<forall>x \<in> set xs. f x = None)"
  shows "first_match (map f (n # xs)) = f n"
proof (cases "f n")
  case None
  with assms have "\<forall>x \<in> set xs. f x = None" by simp
  then have "first_match (map f xs) = None" by (intro first_match_all_None) simp
  with None show ?thesis by simp
next
  case (Some y)
  then show ?thesis by simp
qed

lemma takeWhile_prefix_holds:
  "k < length (takeWhile p s) \<Longrightarrow> k < length s \<and> p (s ! k)"
proof
  assume k: "k < length (takeWhile p s)"
  have "length (takeWhile p s) \<le> length s" by (rule length_takeWhile_le)
  with k show "k < length s" by simp
  from k have "takeWhile p s ! k \<in> set (takeWhile p s)" by simp
  then have "p (takeWhile p s ! k)" by (rule set_takeWhileD[THEN conjunct2])
  with k show "p (s ! k)" by (simp add: takeWhile_nth)
qed

lemma dropWhile_Cons_not: "dropWhile P s = c # t \<Longrightarrow> \<not> P c"
  by (metis hd_dropWhile list.sel(1) list.distinct(1))

lemma rmatch_given_back:
  assumes rej: "\<And>c t. p c \<Longrightarrow> rmatch r (c # t) = None"
    and k: "k < length (takeWhile p s)"
  shows "rmatch r (drop k s) = None"
proof -
  from takeWhile_prefix_holds[OF k] have "k < length s" and pk: "p (s ! k)" by simp_all
  then have "drop k s = s ! k # drop (Suc k) s" by (simp add: Cons_nth_drop_Suc)
  with rej[OF pk] show ?thesis by simp
qed

lemma rmatch_Star_unfold:
  "rmatch (Star p # r) s =
     first_match (map (\<lambda>k. rmatch r (drop k s))
       (length (takeWhile p s) # rev [0 ..< length (takeWhile p s)]))"
  by (simp add: rmatch.simps)

lemma rmatch_Plus_unfold:
  "rmatch (Plus p # r) s =
     first_match (map (\<lambda>k. rmatch r (drop k s)) (rev [1 ..< Suc (length (takeWhile p s))]))"
  by (simp add: rmatch.simps)

lemma rmatch_Star_greedy:
  assumes "rmatch r (dropWhile p s) \<noteq> None \<or> (\<forall>c t. p c \<longrightarrow> rmatch r (c # t) = None)"
  shows "rmatch (Star p # r) s = rmatch r (dropWhile p s)"
proof -
  let ?n = "length (takeWhile p s)"
  let ?f = "\<lambda>k. rmatch r (drop k s)"
  have fn: "?f ?n = rmatch r (dropWhile p s)" by (simp add: dropWhile_eq_drop)
  have "?f ?n \<noteq> None \<or> (\<forall>k \<in> set (rev [0..<?n]). ?f k = None)"
  proof (cases "?f ?n")
    case None
    with assms fn have rej: "\<And>c t. p c \<Longrightarrow> rmatch r (c # t) = None" by simp
    have "\<forall>k \<in> set (rev [0..<?n]). ?f k = None"
    proof
      fix k assume "k \<in> set (rev [0..<?n])"
      then have "k < ?n" by simp
      with rej show "?f k = None" using rmatch_given_back[of p r k s] by blast
    qed
    then show ?thesis ..
  next
    case (Some y)
    then show ?thesis by simp
  qed
  then have "first_match (map ?f (?n # rev [0..<?n])) = ?f ?n" by (rule first_match_head)
  then show ?thesis using fn by (simp only: rmatch_Star_unfold)
qed

lemma rmatch_Plus_greedy:
  assumes "rmatch r (dropWhile p s) \<noteq> None \<or> (\<forall>c t. p c \<longrightarrow> rmatch r (c # t) = None)"
  shows "rmatch (Plus p # r) s =
    (if takeWhile p s = [] then None else rmatch r (dropWhile p s))"
proof (cases "takeWhile p s = []")
  case True
  then show ?thesis by (simp add: rmatch_Plus_unfold)
next
  case False
  let ?n = "length (takeWhile p s)"
  let ?f = "\<lambda>k. rmatch r (drop k s)"
  from False have n: "Suc 0 \<le> ?n" by (simp add: Suc_le_eq)
  have fn: "?f ?n = rmatch r (dropWhile p s)" by (simp add: dropWhile_eq_drop)
  have "?f ?n \<noteq> None \<or> (\<forall>k \<in> set (rev [1..<?n]). ?f k = None)"
  proof (cases "?f ?n")
    case None
    with assms fn have rej: "\<And>c t. p c \<Longrightarrow> rmatch r (c # t) = None" by simp
    have "\<forall>k \<in> set (rev [1..<?n]). ?f k = None"
    proof
      fix k assume "k \<in> set (rev [1..<?n])"
      then have "k < ?n" by simp
      with rej show "?f k = None" using rmatch_given_back[of p r k s] by blast
    qed
    then show ?thesis ..
  next
    case (Some y)
    then show ?thesis by simp
  qed
  then have "first_match (map ?f (?n # rev [1..<?n])) = ?f ?n" by (rule first_match_head)
  moreover have "rev [1..<Suc ?n] = ?n # rev [1..<?n]" using n by simp
  ultimately show ?thesis using fn False by (simp only: rmatch_Plus_unfold if_False)
qed

lemma rmatch_Star_last: "rmatch [Star p] s = Some (dropWhile p s)"
  by (subst rmatch_Star_greedy) simp_all

lemma rmatch_One: "rmatch (One p # r) s =
    (case s of [] \<Rightarrow> None | c # t \<Rightarrow> if p c then rmatch r t else None)"
  by simp

lemma rmatch_re_heading:
  "rmatch re_heading s =
     (if takeWhile (\<lambda>c. c = 35) s = [] then None
      else Some (dropWhile isSpace (dropWhile (\<lambda>c. c = 35) s)))"
  unfolding re_heading_def
  by (subst rmatch_Plus_greedy) (simp_all add: rmatch_Star_last)

lemma test_re_heading: "test re_heading s = is_heading s"
  by (simp add: test_def rmatch_re_heading is_heading_def split: list.splits)

lemma rmatch_re_numbered:
  "rmatch re_numbered s =
     (if takeWhile isDigit s = [] then None
      else (case dropWhile isDigit s of
              [] \<Rightarrow> None
            | c # t \<Rightarrow> if c = 41 \<or> c = 46 then Some (dropWhile isSpace t) else None))"
proof -
  have rej: "\<forall>c t. isDigit c \<longrightarrow>
      rmatch [One (\<lambda>c. c = 41 \<or> c = 46), Star isSpace] (c # t) = None"
    by (simp add: isDigit_def)
  show ?thesis
    unfolding re_numbered_def
    by (subst rmatch_Plus_greedy[OF disjI2[OF rej]], cases "dropWhile isDigit s")
       (simp_all add: rmatch_Star_last del: dropWhile_eq_Nil_conv)
qed

lemma replace_re_numbered: "replace_empty re_numbered s = strip_numbered s"
  by (cases "dropWhile isDigit s")
     (simp_all add: replace_empty_def rmatch_re_numbered strip_numbered_def
        del: dropWhile_eq_Nil_conv)

lemma replace_re_bullet: "replace_empty re_bullet s = strip_bullet s"
  by (simp add: replace_empty_def re_bullet_def rmatch_Star_last strip_bullet_def
        split: list.splits)

lemma rmatch_clo_tail3: "rmatch [Star isSpace, One (\<lambda>c. c = 58)] s =
   (case dropWhile isSpace s of [] \<Rightarrow> None | c # t \<Rightarrow> if c = 58 then Some t else None)"
proof -
  have rej: "\<forall>c t. isSpace c \<longrightarrow> rmatch [One (\<lambda>c. c = 58)] (c # t) = None"
    by (simp add: isSpace_def)
  show ?thesis
    by (subst rmatch_Star_greedy[OF disjI2[OF rej]], cases "dropWhile isSpace s")
       (simp_all del: dropWhile_eq_Nil_conv)
qed

lemma rmatch_clo_tail2: "rmatch [Plus isDigit, Star isSpace, One (\<lambda>c. c = 58)] s =
   (if takeWhile isDigit s = [] then None
    else rmatch [Star isSpace, One (\<lambda>c. c = 58)] (dropWhile isDigit s))"
proof (rule rmatch_Plus_greedy, rule disjI2, intro allI impI)
  fix c t assume "isDigit c"
  then have "\<not> isSpace c" "c \<noteq> 58" by (auto simp: isSpace_def isDigit_def)
  then show "rmatch [Star isSpace, One (\<lambda>c. c = 58)] (c # t) = None"
    by (simp add: rmatch_clo_tail3)
qed

lemma rmatch_clo_tail1: "rmatch [Star isSpace, Plus isDigit, Star isSpace, One (\<lambda>c. c = 58)] s =
   rmatch [Plus isDigit, Star isSpace, One (\<lambda>c. c = 58)] (dropWhile isSpace s)"
proof (rule rmatch_Star_greedy, rule disjI2, intro allI impI)
  fix c t assume "isSpace c"
  then have "\<not> isDigit c" by (auto simp: isSpace_def isDigit_def)
  then show "rmatch [Plus isDigit, Star isSpace, One (\<lambda>c. c = 58)] (c # t) = None"
    by (simp add: rmatch_clo_tail2)
qed

lemma rmatch_clo_tail:
  "(rmatch [Star isSpace, Plus isDigit, Star isSpace, One (\<lambda>c. c = 58)] t \<noteq> None) =
     (takeWhile isDigit (dropWhile isSpace t) \<noteq> []
        \<and> (case dropWhile isSpace (dropWhile isDigit (dropWhile isSpace t)) of
             [] \<Rightarrow> False | c # u \<Rightarrow> c = 58))"
  by (cases "dropWhile isSpace (dropWhile isDigit (dropWhile isSpace t))")
     (simp_all add: rmatch_clo_tail1 rmatch_clo_tail2 rmatch_clo_tail3 del: dropWhile_eq_Nil_conv)

lemma test_re_clo: "test re_clo s = has_item_prefix s"
proof (cases s)
  case Nil
  then show ?thesis by (simp add: test_def re_clo_def has_item_prefix_def)
next
  case (Cons c1 s1)
  show ?thesis
  proof (cases s1)
    case Nil
    with Cons show ?thesis by (simp add: test_def re_clo_def has_item_prefix_def)
  next
    case (Cons c2 s2)
    note s1 = this
    show ?thesis
    proof (cases s2)
      case Nil
      with s1 \<open>s = c1 # s1\<close> show ?thesis by (simp add: test_def re_clo_def has_item_prefix_def)
    next
      case (Cons c3 t)
      with s1 \<open>s = c1 # s1\<close> have s: "s = c1 # c2 # c3 # t" by simp
      show ?thesis
        unfolding s test_def re_clo_def has_item_prefix_def
        using rmatch_clo_tail[of t] by simp
    qed
  qed
qed

section \<open>Properties of the parser\<close>

lemma trim_snoc_space: "isSpace c \<Longrightarrow> trim (s @ [c]) = trim s"
proof (cases "\<forall>x \<in> set s. isSpace x")
  case True
  assume c: "isSpace c"
  from True have "dropWhile isSpace s = []" by simp
  moreover from True c have "dropWhile isSpace (s @ [c]) = []" by simp
  ultimately show ?thesis by (simp add: trim_def del: dropWhile_eq_Nil_conv)
next
  case False
  assume c: "isSpace c"
  from False have "dropWhile isSpace (s @ [c]) = dropWhile isSpace s @ [c]"
    by (auto simp: dropWhile_append1)
  with c show ?thesis by (simp add: trim_def)
qed

lemma lf_pieces_not_Nil: "lf_pieces s \<noteq> []"
  by (cases s) (simp_all split: list.split)

lemma split_acc_lf_pieces:
  "map trim (split_acc cur s) = map trim ((rev cur @ hd (lf_pieces s)) # tl (lf_pieces s))"
proof (induction cur s rule: split_acc.induct)
  case (1 cur)
  show ?case by simp
next
  case (2 cur c s)
  show ?case
  proof (cases "c = 10")
    case True
    with 2(1) have "map trim (split_acc [] s) = map trim (lf_pieces s)"
      using lf_pieces_not_Nil[of s] by simp
    with True show ?thesis by simp
  next
    case False
    note c10 = this
    show ?thesis
    proof (cases "c = 13 \<and> take 1 s = [10]")
      case True
      then obtain s' where s: "s = 10 # s'" by (cases s) auto
      from 2(2)[OF c10 True] have "map trim (split_acc [] s') = map trim (lf_pieces s')"
        using lf_pieces_not_Nil[of s'] s by simp
      moreover have "isSpace 13" by (simp add: isSpace_def)
      ultimately show ?thesis using True s c10
        by (simp add: trim_snoc_space split: list.split)
    next
      case False
      with 2(3)[OF c10 False] c10 lf_pieces_not_Nil[of s] show ?thesis
        by (auto split: list.split)
    qed
  qed
qed

lemma map_trim_split_lines: "map trim (split_lines s) = map trim (lf_pieces s)"
  using split_acc_lf_pieces[of "[]" s] lf_pieces_not_Nil[of s]
  by (simp add: split_lines_def)

lemma linesToItems_spec: "linesToItems text = spec_linesToItems text"
  by (simp add: linesToItems_def spec_linesToItems_def map_trim_split_lines
      test_re_heading replace_re_numbered replace_re_bullet)

text \<open>
  Claim C7. For every text, \<open>linesToItems\<close> is the parser the specification words: the
  text is split at line breaks, every line is trimmed, the empty lines and the heading
  lines are dropped, and from each remaining line one numbered-list marker and then one
  bullet marker are stripped, in the order of the lines. On the text
  \<^verbatim>\<open>"1. Describe X\n- Explain Y\n\nCLO3: Apply Z"\<close> it returns
  \<^verbatim>\<open>["Describe X", "Explain Y", "CLO3: Apply Z"]\<close>.
\<close>

theorem linesToItems_parses:
  "linesToItems text = spec_linesToItems text
   \<and> linesToItems
       (js ''1. Describe X'' @ [10] @ js ''- Explain Y'' @ [10, 10] @ js ''CLO3: Apply Z'')
     = [js ''Describe X'', js ''Explain Y'', js ''CLO3: Apply Z'']"
proof
  show "linesToItems text = spec_linesToItems text"
    by (simp add: linesToItems_def spec_linesToItems_def map_trim_split_lines
        test_re_heading replace_re_numbered replace_re_bullet)
  show "linesToItems
       (js ''1. Describe X'' @ [10] @ js ''- Explain Y'' @ [10, 10] @ js ''CLO3: Apply Z'')
     = [js ''Describe X'', js ''Explain Y'', js ''CLO3: Apply Z'']"
    by (simp add: linesToItems_def split_lines_def js_def trim_def isSpace_def
        test_re_heading replace_re_numbered replace_re_bullet is_heading_def
        strip_numbered_def strip_bullet_def isDigit_def)
qed

text \<open>
  The same on \<^verbatim>\<open>"## Plan\r\n 2) * item one \r\n\r\n\<bullet> two"\<close>: the heading and the empty line
  go, and both markers of the second line are stripped.
\<close>

theorem linesToItems_parses_witness:
  "linesToItems
     (js ''## Plan'' @ [13, 10] @ js '' 2) * item one '' @ [13, 10, 13, 10, 8226] @ js '' two'')
   = [js ''item one'', js ''two'']"
  using linesToItems_parses
    [of "js ''## Plan'' @ [13, 10] @ js '' 2) * item one '' @ [13, 10, 13, 10, 8226] @ js '' two''"]
  by (simp add: spec_linesToItems_def js_def trim_def isSpace_def is_heading_def
      strip_numbered_def strip_bullet_def isDigit_def)

section \<open>Properties of the item list\<close>

lemma lt_count_Fin: "number c = Fin r \<Longrightarrow> lt_count n c \<longleftrightarrow> n < nat \<lceil>r\<rceil>"
proof -
  have "(of_nat n < r) = (int n < \<lceil>r\<rceil>)"
    using less_ceiling_iff[of "int n" r] by simp
  then show "number c = Fin r \<Longrightarrow> lt_count n c \<longleftrightarrow> n < nat \<lceil>r\<rceil>"
    by (simp add: lt_count_def) linarith
qed

lemma length_slice0_Fin:
  "number c = Fin r \<Longrightarrow> 0 \<le> r \<Longrightarrow> length (slice0 xs c) \<le> nat \<lfloor>r\<rfloor>"
  by (simp add: slice0_def integer_part_def)

lemma slice0_NaN: "number c = NaN \<Longrightarrow> slice0 xs c = []"
  by (simp add: slice0_def)

lemma slice0_Nil: "slice0 [] c = []"
  by (simp add: slice0_def split: jsnum.split)

lemma pad_items_done: "\<not> lt_count (length items) c \<Longrightarrow> pad_items rw c items = Some items"
  by (subst pad_items.simps) simp

lemma pad_items_no_extras:
  "filter (\<lambda>s. \<not> test re_clo s) (linesToItems rw) = [] \<Longrightarrow> pad_items rw c items = Some items"
  by (subst pad_items.simps) (simp del: filter_False filter_empty_conv)

lemma linesToItems_Nil: "linesToItems [] = []"
  by (simp add: linesToItems_def split_lines_def trim_def)

lemma suggest_items_Nil: "suggest_items [] c = Some []"
  by (simp add: suggest_items_def linesToItems_Nil slice0_Nil pad_items_no_extras)

lemma number_int_count: "number (int_count k) = Fin (of_int k)"
  by (simp add: int_count_def)

lemma integer_part_of_int: "integer_part (of_int k) = k"
  by (simp add: integer_part_def)

lemma slice0_int_count:
  "slice0 xs (int_count k) =
     (if k < 0 then take (nat (max (int (length xs) + k) 0)) xs
      else take (nat (min k (int (length xs)))) xs)"
  by (simp add: slice0_def int_count_def integer_part_of_int)

lemma lt_count_int_count: "lt_count n (int_count k) \<longleftrightarrow> int n < k"
proof -
  have "(rat_of_nat n < rat_of_int k) = (int n < k)"
    using of_int_less_iff[where 'a = rat, of "int n" k] by simp
  then show ?thesis by (simp add: lt_count_def int_count_def)
qed

lemma slice0_zero: "slice0 xs (int_count 0) = []"
  by (simp add: slice0_int_count)

lemma pad_items_repeat:
  assumes e: "filter (\<lambda>s. \<not> test re_clo s) (linesToItems rw) = e # es"
    and n: "number c = Fin r"
  shows "pad_items rw c items =
    Some (items
      @ map (\<lambda>i. js ''CLO'' @ show_nat (Suc i) @ js '': '' @ e) [length items ..< nat \<lceil>r\<rceil>])"
proof (induction "nat \<lceil>r\<rceil> - length items" arbitrary: items)
  case 0
  then have "\<not> lt_count (length items) c" by (simp add: lt_count_Fin[OF n])
  with 0 show ?case by (simp add: pad_items_done)
next
  case (Suc k)
  then have lt: "length items < nat \<lceil>r\<rceil>" by simp
  then have "lt_count (length items) c" by (simp add: lt_count_Fin[OF n])
  then have "pad_items rw c items =
      pad_items rw c (items @ [js ''CLO'' @ show_nat (length items + 1) @ js '': '' @ e])"
    using e by (subst pad_items.simps) simp
  also have "\<dots> = Some ((items @ [js ''CLO'' @ show_nat (length items + 1) @ js '': '' @ e])
       @ map (\<lambda>i. js ''CLO'' @ show_nat (Suc i) @ js '': '' @ e)
           [Suc (length items) ..< nat \<lceil>r\<rceil>])"
    using Suc(1)[of "items @ [js ''CLO'' @ show_nat (length items + 1) @ js '': '' @ e]"] Suc(2)
    by simp
  finally show ?case using lt by (simp add: upt_conv_Cons)
qed

text \<open>The loop ends for every \<^verbatim>\<open>count\<close> but the infinite one.\<close>

lemma pad_items_returns:
  assumes "number c \<noteq> PosInf"
  shows "\<exists>ys. pad_items rw c items = Some ys"
proof (cases "filter (\<lambda>s. \<not> test re_clo s) (linesToItems rw)")
  case Nil
  then show ?thesis by (simp add: pad_items_no_extras)
next
  case (Cons e es)
  show ?thesis
  proof (cases "number c")
    case (Fin r)
    from pad_items_repeat[OF Cons Fin] show ?thesis by simp
  next
    case NaN
    then show ?thesis by (simp add: pad_items_done lt_count_def)
  next
    case NegInf
    then show ?thesis by (simp add: pad_items_done lt_count_def)
  next
    case PosInf
    with assms show ?thesis by simp
  qed
qed

text \<open>With an infinite \<^verbatim>\<open>count\<close> and a line to borrow it does not end.\<close>

lemma pad_items_forever:
  assumes "number c = PosInf" "filter (\<lambda>s. \<not> test re_clo s) (linesToItems rw) \<noteq> []"
  shows "pad_items rw c items = None"
proof -
  have "\<not> (number c = PosInf \<and> filter (\<lambda>s. \<not> test re_clo s) (linesToItems rw) \<noteq> [])"
    if r: "pad_items rw c items = Some ys" for ys
    by (rule pad_items.raw_induct[where P = "\<lambda>rw c items ys.
          \<not> (number c = PosInf \<and> filter (\<lambda>s. \<not> test re_clo s) (linesToItems rw) \<noteq> [])",
          rotated, OF r])
       (auto simp: lt_count_def split: if_splits list.splits)
  with assms show ?thesis by (cases "pad_items rw c items") auto
qed

lemma show_nat_digit: "n < 10 \<Longrightarrow> show_nat n = [48 + n]"
  by (simp add: show_nat.simps)

lemmas eval_lines = linesToItems_def split_lines_def js_def trim_def isSpace_def
      test_re_heading replace_re_numbered replace_re_bullet is_heading_def
      strip_numbered_def strip_bullet_def isDigit_def test_re_clo has_item_prefix_def

text \<open>
  Claim C1, on three inputs with \<^verbatim>\<open>count\<close> 3. With two matching lines and one other line
  the third item is made from the other line, as the claim says. With one matching line
  and the two other lines \<^verbatim>\<open>foo\<close> and \<^verbatim>\<open>bar\<close>, the loop computes \<^verbatim>\<open>extras\<close> anew in each
  round, so \<^verbatim>\<open>shift()\<close> takes \<^verbatim>\<open>foo\<close> both times and \<^verbatim>\<open>bar\<close> is never borrowed. With the
  single line \<^verbatim>\<open>foo\<close> the loop does not stop when that line is used: it fills all three
  items with it.
\<close>

theorem borrowed_line_is_not_consumed:
  "suggest_items (js ''CLO1: A'' @ [10] @ js ''CLO2: B'' @ [10] @ js ''note'') (int_count 3)
     = Some [js ''CLO1: A'', js ''CLO2: B'', js ''CLO3: note'']
   \<and> suggest_items (js ''CLO1: A'' @ [10] @ js ''foo'' @ [10] @ js ''bar'') (int_count 3)
     = Some [js ''CLO1: A'', js ''CLO2: foo'', js ''CLO3: foo'']
   \<and> suggest_items (js ''foo'') (int_count 3)
     = Some [js ''CLO1: foo'', js ''CLO2: foo'', js ''CLO3: foo'']"
proof (intro conjI)
  have n: "number (int_count 3) = Fin 3" by (simp add: int_count_def)
  let ?rw = "js ''CLO1: A'' @ [10] @ js ''CLO2: B'' @ [10] @ js ''note''"
  have l: "linesToItems ?rw = [js ''CLO1: A'', js ''CLO2: B'', js ''note'']"
    by (simp add: eval_lines)
  have e: "filter (\<lambda>s. \<not> test re_clo s) (linesToItems ?rw) = js ''note'' # []"
    unfolding l by (simp add: eval_lines)
  have m: "filter (test re_clo) (linesToItems ?rw) = [js ''CLO1: A'', js ''CLO2: B'']"
    unfolding l by (simp add: eval_lines)
  show "suggest_items ?rw (int_count 3)
      = Some [js ''CLO1: A'', js ''CLO2: B'', js ''CLO3: note'']"
    unfolding suggest_items_def m pad_items_repeat[OF e n]
    by (simp add: slice0_int_count show_nat_digit js_def upt_rec)
next
  have n: "number (int_count 3) = Fin 3" by (simp add: int_count_def)
  let ?rw = "js ''CLO1: A'' @ [10] @ js ''foo'' @ [10] @ js ''bar''"
  have l: "linesToItems ?rw = [js ''CLO1: A'', js ''foo'', js ''bar'']"
    by (simp add: eval_lines)
  have e: "filter (\<lambda>s. \<not> test re_clo s) (linesToItems ?rw) = js ''foo'' # [js ''bar'']"
    unfolding l by (simp add: eval_lines)
  have m: "filter (test re_clo) (linesToItems ?rw) = [js ''CLO1: A'']"
    unfolding l by (simp add: eval_lines)
  show "suggest_items ?rw (int_count 3)
      = Some [js ''CLO1: A'', js ''CLO2: foo'', js ''CLO3: foo'']"
    unfolding suggest_items_def m pad_items_repeat[OF e n]
    by (simp add: slice0_int_count show_nat_digit js_def upt_rec)
next
  have n: "number (int_count 3) = Fin 3" by (simp add: int_count_def)
  let ?rw = "js ''foo''"
  have l: "linesToItems ?rw = [js ''foo'']"
    by (simp add: eval_lines)
  have e: "filter (\<lambda>s. \<not> test re_clo s) (linesToItems ?rw) = js ''foo'' # []"
    unfolding l by (simp add: eval_lines)
  have m: "filter (test re_clo) (linesToItems ?rw) = []"
    unfolding l by (simp add: eval_lines)
  show "suggest_items ?rw (int_count 3)
      = Some [js ''CLO1: foo'', js ''CLO2: foo'', js ''CLO3: foo'']"
    unfolding suggest_items_def m pad_items_repeat[OF e n]
    by (simp add: slice0_int_count show_nat_digit js_def upt_rec)
qed

section \<open>Properties of the invoker\<close>

lemma map_of_delete_key:
  "map_of (delete_key ob k) k' = (if k' = k then None else map_of ob k')"
  by (induction ob) (auto simp: delete_key_def)

lemma map_of_replace:
  "map_of (map (\<lambda>(k', v'). if k' = k then (k', v) else (k', v')) ob) k'' =
     (if k'' = k then (if k \<in> fst ` set ob then Some v else None) else map_of ob k'')"
  by (induction ob) (force split: if_splits)+

lemma map_of_set_key:
  "map_of (set_key ob k v) k' = (if k' = k then Some v else map_of ob k')"
proof (cases "k \<in> fst ` set ob")
  case True
  then show ?thesis by (simp add: set_key_def map_of_replace)
next
  case False
  then have "map_of ob k = None" by (simp add: map_of_eq_None_iff)
  with False show ?thesis by (simp add: set_key_def map_add_def split: option.split)
qed

lemma lookup_spread: "(case map_of (spread h p) k of Some x \<Rightarrow> x | None \<Rightarrow> VUndefined) = get_prop h p k"
  by (cases p) (simp_all add: spread_def get_prop_def)

lemma strip_verbosity_eq:
  "strip_verbosity h p =
     (VRef (Suc (length h)),
      h @ [delete_key (spread h (if truthy (get_prop h p ''text'') then get_prop h p ''text''
                                 else VUndefined)) ''verbosity'',
           set_key (spread h p) ''text'' (VRef (length h))])"
  by (simp add: strip_verbosity_def alloc_def Let_def get_prop_def delete_prop_def
      nth_append map_of_set_key list_update_append)

lemma strip_reasoning_eq:
  "strip_reasoning h p = (VRef (length h), h @ [delete_key (spread h p) ''reasoning''])"
  by (simp add: strip_reasoning_def alloc_def delete_prop_def nth_append)

lemma strip_verbosity_frame: "take (length h) (snd (strip_verbosity h p)) = h"
  by (simp add: strip_verbosity_eq)

lemma strip_reasoning_frame: "take (length h) (snd (strip_reasoning h p)) = h"
  by (simp add: strip_reasoning_eq)

lemma strip_verbosity_copy:
  "get_prop (snd (strip_verbosity h p)) (fst (strip_verbosity h p)) k =
     (if k = ''text'' then VRef (length h) else get_prop h p k)"
  by (simp add: strip_verbosity_eq get_prop_def nth_append map_of_set_key lookup_spread[unfolded get_prop_def])

lemma strip_verbosity_text:
  "get_prop (snd (strip_verbosity h p)) (VRef (length h)) k =
     (if k = ''verbosity'' then VUndefined else get_prop h (get_prop h p ''text'') k)"
proof -
  let ?t = "get_prop h p ''text''"
  have "(case map_of (spread h (if truthy ?t then ?t else VUndefined)) k of
           Some x \<Rightarrow> x | None \<Rightarrow> VUndefined) = get_prop h ?t k"
    by (cases ?t) (simp_all add: lookup_spread, simp_all add: get_prop_def spread_def)
  then show ?thesis
    by (simp add: strip_verbosity_eq get_prop_def[of _ "VRef _"] nth_append map_of_delete_key)
qed

lemma strip_reasoning_copy:
  "get_prop (snd (strip_reasoning h p)) (fst (strip_reasoning h p)) k =
     (if k = ''reasoning'' then VUndefined else get_prop h p k)"
  using lookup_spread[of h p k]
  by (simp add: strip_reasoning_eq get_prop_def[of _ "VRef _"] nth_append map_of_delete_key)

lemma crwf_step:
  "createResponseWithFallback U create w params fl =
     (case create (length (trace w)) (objs w) params of
        Inr rsp \<Rightarrow> (Inr rsp, w\<lparr>trace := trace w @ [Inr rsp]\<rparr>)
      | Inl e \<Rightarrow>
          if \<not> stripVerbosity fl \<and> has_verbosity (objs w) params then
            createResponseWithFallback U create
              (w\<lparr>trace := trace w @ [Inl e], objs := snd (strip_verbosity (objs w) params)\<rparr>)
              (fst (strip_verbosity (objs w) params))
              \<lparr>stripVerbosity = True, stripReasoning = stripReasoning fl\<rparr>
          else if \<not> stripReasoning fl \<and> has_effort (objs w) params then
            createResponseWithFallback U create
              (w\<lparr>trace := trace w @ [Inl e], objs := snd (strip_reasoning (objs w) params)\<rparr>)
              (fst (strip_reasoning (objs w) params))
              \<lparr>stripVerbosity = True, stripReasoning = True\<rparr>
          else (Inl e, w\<lparr>trace := trace w @ [Inl e]\<rparr>))"
  by (subst createResponseWithFallback.simps) (simp add: Let_def split: sum.split)

lemma crwf_ok:
  "create (length (trace w)) (objs w) params = Inr rsp \<Longrightarrow>
   createResponseWithFallback U create w params fl = (Inr rsp, w\<lparr>trace := trace w @ [Inr rsp]\<rparr>)"
  by (subst crwf_step) simp

lemma crwf_fallback1:
  "create (length (trace w)) (objs w) params = Inl e \<Longrightarrow>
   \<not> stripVerbosity fl \<Longrightarrow> has_verbosity (objs w) params \<Longrightarrow>
   createResponseWithFallback U create w params fl =
     createResponseWithFallback U create
       (w\<lparr>trace := trace w @ [Inl e], objs := snd (strip_verbosity (objs w) params)\<rparr>)
       (fst (strip_verbosity (objs w) params))
       \<lparr>stripVerbosity = True, stripReasoning = stripReasoning fl\<rparr>"
  by (subst crwf_step) simp

lemma crwf_fallback2:
  "create (length (trace w)) (objs w) params = Inl e \<Longrightarrow>
   stripVerbosity fl \<or> \<not> has_verbosity (objs w) params \<Longrightarrow>
   \<not> stripReasoning fl \<Longrightarrow> has_effort (objs w) params \<Longrightarrow>
   createResponseWithFallback U create w params fl =
     createResponseWithFallback U create
       (w\<lparr>trace := trace w @ [Inl e], objs := snd (strip_reasoning (objs w) params)\<rparr>)
       (fst (strip_reasoning (objs w) params))
       \<lparr>stripVerbosity = True, stripReasoning = True\<rparr>"
  by (subst crwf_step) auto

lemma crwf_rethrow:
  "create (length (trace w)) (objs w) params = Inl e \<Longrightarrow>
   stripVerbosity fl \<or> \<not> has_verbosity (objs w) params \<Longrightarrow>
   stripReasoning fl \<or> \<not> has_effort (objs w) params \<Longrightarrow>
   createResponseWithFallback U create w params fl = (Inl e, w\<lparr>trace := trace w @ [Inl e]\<rparr>)"
  by (subst crwf_step) auto

lemma crwf_cases:
  obtains
    (ok) rsp where "create (length (trace w)) (objs w) params = Inr rsp"
  | (fallback1) e where "create (length (trace w)) (objs w) params = Inl e"
      "\<not> stripVerbosity fl" "has_verbosity (objs w) params"
  | (fallback2) e where "create (length (trace w)) (objs w) params = Inl e"
      "stripVerbosity fl \<or> \<not> has_verbosity (objs w) params"
      "\<not> stripReasoning fl" "has_effort (objs w) params"
  | (rethrow) e where "create (length (trace w)) (objs w) params = Inl e"
      "stripVerbosity fl \<or> \<not> has_verbosity (objs w) params"
      "stripReasoning fl \<or> \<not> has_effort (objs w) params"
  by (cases "create (length (trace w)) (objs w) params") blast+

lemma crwf_trace:
  "\<exists>new. trace (snd (createResponseWithFallback U create w params fl)) = trace w @ new
     \<and> new \<noteq> [] \<and> length new \<le> Suc (budget fl)
     \<and> fst (createResponseWithFallback U create w params fl) = last new
     \<and> (\<forall>x \<in> set (butlast new). isl x)"
proof (induction "budget fl" arbitrary: w params fl rule: less_induct)
  case less
  show ?case
  proof (cases rule: crwf_cases[where create = create and w = w and params = params and fl = fl])
    case (ok rsp)
    then show ?thesis by (simp add: crwf_ok)
  next
    case (fallback1 e)
    let ?fl = "\<lparr>stripVerbosity = True, stripReasoning = stripReasoning fl\<rparr>"
    let ?w = "w\<lparr>trace := trace w @ [Inl e], objs := snd (strip_verbosity (objs w) params)\<rparr>"
    let ?p = "fst (strip_verbosity (objs w) params)"
    from fallback1 have "budget ?fl < budget fl" by (simp add: budget_def)
    from less[OF this, of ?w ?p] obtain new where
      "trace (snd (createResponseWithFallback U create ?w ?p ?fl)) = trace ?w @ new"
      "new \<noteq> []" "length new \<le> Suc (budget ?fl)"
      "fst (createResponseWithFallback U create ?w ?p ?fl) = last new"
      "\<forall>x \<in> set (butlast new). isl x"
      by blast
    with \<open>budget ?fl < budget fl\<close> show ?thesis
      unfolding crwf_fallback1[where create = create and w = w and params = params, OF fallback1]
      by (intro exI[of _ "Inl e # new"]) simp
  next
    case (fallback2 e)
    let ?fl = "\<lparr>stripVerbosity = True, stripReasoning = True\<rparr>"
    let ?w = "w\<lparr>trace := trace w @ [Inl e], objs := snd (strip_reasoning (objs w) params)\<rparr>"
    let ?p = "fst (strip_reasoning (objs w) params)"
    from fallback2 have "budget ?fl < budget fl" by (simp add: budget_def)
    from less[OF this, of ?w ?p] obtain new where
      "trace (snd (createResponseWithFallback U create ?w ?p ?fl)) = trace ?w @ new"
      "new \<noteq> []" "length new \<le> Suc (budget ?fl)"
      "fst (createResponseWithFallback U create ?w ?p ?fl) = last new"
      "\<forall>x \<in> set (butlast new). isl x"
      by blast
    with \<open>budget ?fl < budget fl\<close> show ?thesis
      unfolding crwf_fallback2[where create = create and w = w and params = params, OF fallback2]
      by (intro exI[of _ "Inl e # new"]) simp
  next
    case (rethrow e)
    then show ?thesis by (simp add: crwf_rethrow)
  qed
qed

lemma crwf_frame:
  "take (length (objs w)) (objs (snd (createResponseWithFallback U create w params fl))) = objs w"
proof (induction "budget fl" arbitrary: w params fl rule: less_induct)
  case less
  show ?case
  proof (cases rule: crwf_cases[where create = create and w = w and params = params and fl = fl])
    case (ok rsp)
    then show ?thesis by (simp add: crwf_ok)
  next
    case (fallback1 e)
    let ?fl = "\<lparr>stripVerbosity = True, stripReasoning = stripReasoning fl\<rparr>"
    let ?w = "w\<lparr>trace := trace w @ [Inl e], objs := snd (strip_verbosity (objs w) params)\<rparr>"
    let ?p = "fst (strip_verbosity (objs w) params)"
    let ?r = "objs (snd (createResponseWithFallback U create ?w ?p ?fl))"
    from fallback1 have "budget ?fl < budget fl" by (simp add: budget_def)
    from less[OF this, of ?w ?p] have "take (length (objs ?w)) ?r = objs ?w" .
    then have "take (length (objs w)) (take (length (objs ?w)) ?r) = take (length (objs w)) (objs ?w)"
      by simp
    then have "take (length (objs w)) ?r = objs w"
      by (simp add: strip_verbosity_eq min_def)
    then show ?thesis unfolding crwf_fallback1[where create = create and w = w and params = params, OF fallback1] .
  next
    case (fallback2 e)
    let ?fl = "\<lparr>stripVerbosity = True, stripReasoning = True\<rparr>"
    let ?w = "w\<lparr>trace := trace w @ [Inl e], objs := snd (strip_reasoning (objs w) params)\<rparr>"
    let ?p = "fst (strip_reasoning (objs w) params)"
    let ?r = "objs (snd (createResponseWithFallback U create ?w ?p ?fl))"
    from fallback2 have "budget ?fl < budget fl" by (simp add: budget_def)
    from less[OF this, of ?w ?p] have "take (length (objs ?w)) ?r = objs ?w" .
    then have "take (length (objs w)) (take (length (objs ?w)) ?r) = take (length (objs w)) (objs ?w)"
      by simp
    then have "take (length (objs w)) ?r = objs w"
      by (simp add: strip_reasoning_eq min_def)
    then show ?thesis unfolding crwf_fallback2[where create = create and w = w and params = params, OF fallback2] .
  next
    case (rethrow e)
    then show ?thesis by (simp add: crwf_rethrow)
  qed
qed

lemma budget_le_2: "budget fl \<le> 2"
  by (simp add: budget_def)

lemma suggest_params_eq:
  "suggest_params m i =
     (VRef 2,
      [[(''verbosity'', VStr (js ''low''))], [(''effort'', VStr (js ''minimal''))],
       [(''model'', VStr m), (''input'', VStr i), (''text'', VRef 0), (''reasoning'', VRef 1),
        (''max_output_tokens'', VNum 900), (''temperature'', VNum (4 / 10))]])"
  by (simp add: suggest_params_def alloc_def)

lemma evaluate_params_eq:
  "evaluate_params m i =
     (VRef 2,
      [[(''verbosity'', VStr (js ''medium''))], [(''effort'', VStr (js ''medium''))],
       [(''model'', VStr m), (''input'', VStr i), (''text'', VRef 0), (''reasoning'', VRef 1),
        (''max_output_tokens'', VNum 600), (''temperature'', VNum (2 / 10))]])"
  by (simp add: evaluate_params_def alloc_def)

lemma raw_params_eq:
  "raw_params m i t =
     (VRef 1,
      [[(''verbosity'', VStr (js ''low''))],
       [(''model'', VStr m), (''input'', VStr i), (''text'', VRef 0),
        (''max_output_tokens'', VNum t)]])"
  by (simp add: raw_params_def alloc_def)

lemma js_neq_Nil: "js (c # s) \<noteq> []"
  by (simp add: js_def)

lemmas eval_store = has_verbosity_def has_effort_def get_prop_def strip_verbosity_eq
  strip_reasoning_eq spread_def set_key_def delete_key_def nth_append js_neq_Nil

text \<open>
  Claim C3. Whatever the parameters, the flags and the upstream do, one invocation calls
  the upstream at least once and at most three times (the trace grows by \<open>new\<close>), every
  call but the last one failed, and what the invocation returns or throws is the outcome
  of its last call: after the third call nothing is retried.
\<close>

theorem at_most_two_retries:
  "\<exists>new. trace (snd (createResponseWithFallback U create w params fl)) = trace w @ new
     \<and> new \<noteq> [] \<and> length new \<le> 3
     \<and> fst (createResponseWithFallback U create w params fl) = last new
     \<and> (\<forall>x \<in> set (butlast new). isl x)"
proof -
  from crwf_trace[of U create w params fl] obtain new where
    n: "trace (snd (createResponseWithFallback U create w params fl)) = trace w @ new"
      "new \<noteq> []" "length new \<le> Suc (budget fl)"
      "fst (createResponseWithFallback U create w params fl) = last new"
      "\<forall>x \<in> set (butlast new). isl x"
    by blast
  from n(3) budget_le_2[of fl] have "length new \<le> 3" by simp
  with n show ?thesis by blast
qed

text \<open>
  An upstream that fails twice and then answers, called with the parameters of
  \<^verbatim>\<open>/api/suggest\<close>: three calls, and the answer of the third is returned.
\<close>

theorem at_most_two_retries_witness:
  "trace (snd (invoke ascii (fails_twice (js ''ok'')) (suggest_params (js ''gpt-5-mini'') (js ''hello''))))
     = [Inl rate_limited, Inl rate_limited, Inr \<lparr>output_text = Some (js ''ok'')\<rparr>]
   \<and> fst (invoke ascii (fails_twice (js ''ok'')) (suggest_params (js ''gpt-5-mini'') (js ''hello'')))
     = Inr \<lparr>output_text = Some (js ''ok'')\<rparr>"
  using at_most_two_retries[of ascii "fails_twice (js ''ok'')"
        "\<lparr>objs = snd (suggest_params (js ''gpt-5-mini'') (js ''hello'')), trace = []\<rparr>"
        "fst (suggest_params (js ''gpt-5-mini'') (js ''hello''))"
        "\<lparr>stripVerbosity = False, stripReasoning = False\<rparr>"]
  by (simp add: invoke_def suggest_params_eq crwf_step eval_store fails_twice_def)

text \<open>
  Claim C8. Every object that was in the store before the invocation (the caller's
  \<^verbatim>\<open>params\<close>, its \<^verbatim>\<open>text\<close> and \<^verbatim>\<open>reasoning\<close> objects among them) is the same after it,
  whatever the outcome. The first fallback leaves the store as it was and adds two
  objects: the copy has every property of \<^verbatim>\<open>params\<close> except \<^verbatim>\<open>text\<close>, which refers to a
  new object with every property of \<^verbatim>\<open>params.text\<close> except \<^verbatim>\<open>verbosity\<close>. The second adds
  one object, with every property of \<^verbatim>\<open>params\<close> except \<^verbatim>\<open>reasoning\<close>.
\<close>

theorem params_never_mutated:
  "take (length (objs w)) (objs (snd (createResponseWithFallback U create w params fl))) = objs w
   \<and> take (length h) (snd (strip_verbosity h p)) = h
   \<and> get_prop (snd (strip_verbosity h p)) (fst (strip_verbosity h p)) k =
       (if k = ''text'' then VRef (length h) else get_prop h p k)
   \<and> get_prop (snd (strip_verbosity h p)) (VRef (length h)) k =
       (if k = ''verbosity'' then VUndefined else get_prop h (get_prop h p ''text'') k)
   \<and> take (length h) (snd (strip_reasoning h p)) = h
   \<and> get_prop (snd (strip_reasoning h p)) (fst (strip_reasoning h p)) k =
       (if k = ''reasoning'' then VUndefined else get_prop h p k)"
  by (simp only: crwf_frame strip_verbosity_frame strip_verbosity_copy strip_verbosity_text
      strip_reasoning_frame strip_reasoning_copy simp_thms)

text \<open>
  The store after an invocation in which all three calls failed: the three objects of
  the caller, then the copy of \<^verbatim>\<open>text\<close> without \<^verbatim>\<open>verbosity\<close>, the first copy of the
  parameters and the second copy, without \<^verbatim>\<open>reasoning\<close>.
\<close>

theorem params_never_mutated_witness:
  "objs (snd (invoke ascii always_fails (suggest_params (js ''gpt-5-mini'') (js ''hello''))))
   = snd (suggest_params (js ''gpt-5-mini'') (js ''hello'')) @
     [[],
      [(''model'', VStr (js ''gpt-5-mini'')), (''input'', VStr (js ''hello'')), (''text'', VRef 3),
       (''reasoning'', VRef 1), (''max_output_tokens'', VNum 900), (''temperature'', VNum (4 / 10))],
      [(''model'', VStr (js ''gpt-5-mini'')), (''input'', VStr (js ''hello'')), (''text'', VRef 3),
       (''max_output_tokens'', VNum 900), (''temperature'', VNum (4 / 10))]]"
  using params_never_mutated[of
        "\<lparr>objs = snd (suggest_params (js ''gpt-5-mini'') (js ''hello'')), trace = []\<rparr>"
        ascii always_fails "fst (suggest_params (js ''gpt-5-mini'') (js ''hello''))"
        "\<lparr>stripVerbosity = False, stripReasoning = False\<rparr>"]
  by (simp add: invoke_def suggest_params_eq crwf_step eval_store always_fails_def)




section \<open>Properties of the endpoints\<close>

lemma crwf_const_fail:
  assumes "\<And>n h p. create n h p = Inl e0"
  shows "fst (createResponseWithFallback U create w params fl) = Inl e0"
proof (induction "budget fl" arbitrary: w params fl rule: less_induct)
  case less
  show ?case
  proof (cases rule: crwf_cases[where create = create and w = w and params = params and fl = fl])
    case (ok rsp)
    with assms[of "length (trace w)" "objs w" params] show ?thesis by simp
  next
    case (fallback1 e)
    then have "budget \<lparr>stripVerbosity = True, stripReasoning = stripReasoning fl\<rparr> < budget fl"
      by (simp add: budget_def)
    from less[OF this] show ?thesis
      unfolding crwf_fallback1[where create = create and w = w and params = params, OF fallback1] .
  next
    case (fallback2 e)
    then have "budget \<lparr>stripVerbosity = True, stripReasoning = True\<rparr> < budget fl"
      by (simp add: budget_def)
    from less[OF this] show ?thesis
      unfolding crwf_fallback2[where create = create and w = w and params = params, OF fallback2] .
  next
    case (rethrow e)
    with assms[of "length (trace w)" "objs w" params] show ?thesis by (simp add: crwf_rethrow)
  qed
qed

lemma invoke_always_fails: "fst (invoke U always_fails ph) = Inl rate_limited"
  unfolding invoke_def by (rule crwf_const_fail) (simp add: always_fails_def)

lemma invoke_answers: "fst (invoke U (answers a) ph) = Inr \<lparr>output_text = a\<rparr>"
  by (simp add: invoke_def answers_def crwf_ok)

text \<open>
  Claim C9. When the invocation of a handler ends in an error \<open>e\<close>, the handler answers
  with status 500 and the body \<^verbatim>\<open>{"error": "suggest_failed"}\<close>, \<^verbatim>\<open>{"error":
  "evaluate_failed"}\<close> or \<^verbatim>\<open>{"error": "raw_failed"}\<close>: a fixed tag, with nothing of \<open>e\<close>.
\<close>

theorem failure_gives_fixed_tag:
  "(suggest_invocation U cfg T create rb = Inl e \<longrightarrow>
      api_suggest U cfg T create rb = Some \<lparr>status = 500, json = Failed ''suggest_failed''\<rparr>)
   \<and> (evaluate_invocation U cfg T create rb = Inl e \<longrightarrow>
      api_evaluate U cfg T create rb = \<lparr>status = 500, json = Failed ''evaluate_failed''\<rparr>)
   \<and> (raw_invocation U cfg create rb = Inl e \<longrightarrow>
      api_raw U cfg create rb = \<lparr>status = 500, json = Failed ''raw_failed''\<rparr>)"
  by (simp add: api_suggest_def api_evaluate_def api_raw_def Let_def)

text \<open>With an upstream that fails on every call, on an empty request.\<close>

theorem failure_gives_fixed_tag_witness:
  "api_suggest ascii cfg_auto no_prose always_fails None
     = Some \<lparr>status = 500, json = Failed ''suggest_failed''\<rparr>
   \<and> api_evaluate ascii cfg_auto no_prose always_fails None
     = \<lparr>status = 500, json = Failed ''evaluate_failed''\<rparr>
   \<and> api_raw ascii cfg_auto always_fails None
     = \<lparr>status = 500, json = Failed ''raw_failed''\<rparr>"
  using failure_gives_fixed_tag[of ascii cfg_auto no_prose always_fails None rate_limited]
  by (simp add: suggest_invocation_def evaluate_invocation_def raw_invocation_def
      invoke_always_fails Let_def)

text \<open>
  Claim C10. When the invocation returns a response whose \<^verbatim>\<open>output_text\<close> is absent,
  \<^verbatim>\<open>null\<close> or empty, the handlers answer with status 200: \<^verbatim>\<open>/api/suggest\<close> with no items
  and the empty \<^verbatim>\<open>raw\<close>, \<^verbatim>\<open>/api/evaluate\<close> and \<^verbatim>\<open>/api/raw\<close> with the empty \<^verbatim>\<open>text\<close>.
\<close>

theorem empty_output_still_succeeds:
  "(suggest_invocation U cfg T create rb = Inr rsp
      \<and> (output_text rsp = None \<or> output_text rsp = Some []) \<longrightarrow>
      api_suggest U cfg T create rb =
        Some \<lparr>status = 200,
          json = Items [] [] (pickModel cfg (js ''suggest'') (model (body_of rb)))\<rparr>)
   \<and> (evaluate_invocation U cfg T create rb = Inr rsp
      \<and> (output_text rsp = None \<or> output_text rsp = Some []) \<longrightarrow>
      api_evaluate U cfg T create rb =
        \<lparr>status = 200, json = Text [] (pickModel cfg (js ''evaluate'') (model (body_of rb)))\<rparr>)
   \<and> (raw_invocation U cfg create rb = Inr rsp
      \<and> (output_text rsp = None \<or> output_text rsp = Some []) \<longrightarrow>
      api_raw U cfg create rb = \<lparr>status = 200, json = Text [] (raw_model cfg (body_of rb))\<rparr>)"
  by (auto simp: api_suggest_def api_evaluate_def api_raw_def Let_def orEmpty_def
      suggest_items_Nil)

text \<open>With upstreams that answer without \<^verbatim>\<open>output_text\<close> and with an empty one.\<close>

theorem empty_output_still_succeeds_witness:
  "api_suggest ascii cfg_auto no_prose (answers None) None
     = Some \<lparr>status = 200, json = Items [] [] (js ''gpt-5-mini'')\<rparr>
   \<and> api_evaluate ascii cfg_auto no_prose (answers (Some [])) None
     = \<lparr>status = 200, json = Text [] (js ''gpt-5'')\<rparr>
   \<and> api_raw ascii cfg_auto (answers None) None
     = \<lparr>status = 200, json = Text [] (js ''gpt-5'')\<rparr>"
  using empty_output_still_succeeds[of ascii cfg_auto no_prose "answers None" None
      "\<lparr>output_text = None\<rparr>"]
    empty_output_still_succeeds[of ascii cfg_auto no_prose "answers (Some [])" None
      "\<lparr>output_text = Some []\<rparr>"]
  by (simp add: suggest_invocation_def evaluate_invocation_def raw_invocation_def
      invoke_answers Let_def pickModel_def body_of_def no_body_def cfg_auto_def orEmpty_def
      raw_model_def js_def)

lemma api_suggest_answers:
  "api_suggest U cfg T (answers a) rb =
     map_option
       (\<lambda>items. \<lparr>status = 200,
          json = Items items (orEmpty a) (pickModel cfg (js ''suggest'') (model (body_of rb)))\<rparr>)
       (suggest_items (orEmpty a) (count_of (count (body_of rb))))"
  by (simp add: api_suggest_def suggest_invocation_def invoke_answers Let_def)

lemma api_suggest_items:
  assumes "api_suggest U cfg T create rb = Some \<lparr>status = 200, json = Items xs rw m\<rparr>"
  shows "suggest_items rw (count_of (count (body_of rb))) = Some xs"
  using assms by (auto simp: api_suggest_def Let_def split: sum.splits)

lemma one_line: "linesToItems (js ''CLO1: a'') = [js ''CLO1: a'']"
  by (simp add: eval_lines)

lemma one_line_items6: "suggest_items (js ''CLO1: a'') (int_count 6) = Some [js ''CLO1: a'']"
proof -
  have "filter (\<lambda>s. \<not> test re_clo s) (linesToItems (js ''CLO1: a'')) = []"
    unfolding one_line by (simp add: eval_lines)
  moreover have "filter (test re_clo) (linesToItems (js ''CLO1: a'')) = [js ''CLO1: a'']"
    unfolding one_line by (simp add: eval_lines)
  ultimately show ?thesis
    by (simp add: suggest_items_def pad_items_no_extras slice0_int_count
        del: filter_False filter_empty_conv)
qed

lemma suggest_items_zero: "suggest_items rw (int_count 0) = Some []"
proof -
  have "\<not> lt_count (length ([] :: jsstring list)) (int_count 0)"
    by (simp add: lt_count_int_count)
  then show ?thesis
    by (simp add: suggest_items_def slice0_zero pad_items_done)
qed

lemma nine_lines_items:
  "linesToItems nine_lines = [js ''CLO1: a'', js ''CLO2: b'', js ''CLO3: c'',
      js ''CLO4: d'', js ''CLO5: e'', js ''CLO6: f'', js ''CLO7: g'', js ''CLO8: h'',
      js ''CLO9: i'']"
  by (simp add: nine_lines_def eval_lines)

lemma nine_lines_matched:
  "filter (test re_clo) (linesToItems nine_lines) = [js ''CLO1: a'', js ''CLO2: b'',
      js ''CLO3: c'', js ''CLO4: d'', js ''CLO5: e'', js ''CLO6: f'', js ''CLO7: g'',
      js ''CLO8: h'', js ''CLO9: i'']"
  unfolding nine_lines_items by (simp add: eval_lines)

lemma nine_lines_extras: "filter (\<lambda>s. \<not> test re_clo s) (linesToItems nine_lines) = []"
  unfolding nine_lines_items by (simp add: eval_lines)

lemma nine_lines_minus_one:
  "suggest_items nine_lines (int_count (- 1))
   = Some [js ''CLO1: a'', js ''CLO2: b'', js ''CLO3: c'', js ''CLO4: d'', js ''CLO5: e'',
      js ''CLO6: f'', js ''CLO7: g'']"
  unfolding suggest_items_def nine_lines_matched
  by (simp add: slice0_int_count pad_items_done lt_count_int_count)

text \<open>
  Claim C5 says that a \<^verbatim>\<open>count\<close> of zero or below is replaced by the default 6, which
  then bounds the items. The handler uses the count as it is: on the answer \<^verbatim>\<open>CLO1: a\<close> a
  request with \<^verbatim>\<open>count\<close> 0 gets no items, where the same request with \<^verbatim>\<open>count\<close> 6 gets
  one; and with \<^verbatim>\<open>count\<close> -1, on an answer of nine item lines, each \<^verbatim>\<open>slice(0, -1)\<close> drops
  the last line and seven items are returned, more than 6.
\<close>

theorem count_zero_is_not_defaulted:
  "api_suggest ascii cfg_auto no_prose (answers (Some (js ''CLO1: a'')))
       (Some (no_body\<lparr>count := Some (int_count 0)\<rparr>))
     = Some \<lparr>status = 200, json = Items [] (js ''CLO1: a'') (js ''gpt-5-mini'')\<rparr>
   \<and> api_suggest ascii cfg_auto no_prose (answers (Some (js ''CLO1: a'')))
       (Some (no_body\<lparr>count := Some (int_count 6)\<rparr>))
     = Some \<lparr>status = 200,
         json = Items [js ''CLO1: a''] (js ''CLO1: a'') (js ''gpt-5-mini'')\<rparr>
   \<and> api_suggest ascii cfg_auto no_prose (answers (Some nine_lines))
       (Some (no_body\<lparr>count := Some (int_count (- 1))\<rparr>))
     = Some \<lparr>status = 200,
         json = Items [js ''CLO1: a'', js ''CLO2: b'', js ''CLO3: c'', js ''CLO4: d'',
                  js ''CLO5: e'', js ''CLO6: f'', js ''CLO7: g''] nine_lines (js ''gpt-5-mini'')\<rparr>"
  by (simp add: api_suggest_answers orEmpty_def count_of_def body_of_def no_body_def
      suggest_items_zero one_line_items6 nine_lines_minus_one pickModel_def cfg_auto_def)
     (simp add: js_def)

text \<open>
  Claim C5, amended. The default 6 applies when \<^verbatim>\<open>count\<close> is absent, and a \<^verbatim>\<open>count\<close> that is
  present is used as given, whatever it is. When the count in use converts to a number
  \<open>r \<ge> 0\<close>, the items of a successful reply are at most the integer part of \<open>r\<close>: at most
  one for \<^verbatim>\<open>true\<close>, at most two for \<^verbatim>\<open>"2"\<close> and for 2.5. When it converts to \<open>NaN\<close>, as
  \<^verbatim>\<open>"abc"\<close> does, there are no items.
\<close>

theorem count_used_as_given:
  "count_of None = int_count 6
   \<and> count_of (Some c) = c
   \<and> (api_suggest U cfg T create rb = Some \<lparr>status = 200, json = Items xs rw m\<rparr>
        \<and> number (count_of (count (body_of rb))) = Fin r \<and> 0 \<le> r
      \<longrightarrow> length xs \<le> nat \<lfloor>r\<rfloor>)
   \<and> (api_suggest U cfg T create rb = Some \<lparr>status = 200, json = Items xs rw m\<rparr>
        \<and> number (count_of (count (body_of rb))) = NaN
      \<longrightarrow> xs = [])"
proof (intro conjI impI)
  show "count_of None = int_count 6" "count_of (Some c) = c" by (simp_all add: count_of_def)
next
  assume a: "api_suggest U cfg T create rb = Some \<lparr>status = 200, json = Items xs rw m\<rparr>
        \<and> number (count_of (count (body_of rb))) = Fin r \<and> 0 \<le> r"
  then have "suggest_items rw (count_of (count (body_of rb))) = Some xs"
    using api_suggest_items by blast
  then obtain ys where "xs = slice0 ys (count_of (count (body_of rb)))"
    by (auto simp: suggest_items_def)
  with a show "length xs \<le> nat \<lfloor>r\<rfloor>" by (simp add: length_slice0_Fin)
next
  assume a: "api_suggest U cfg T create rb = Some \<lparr>status = 200, json = Items xs rw m\<rparr>
        \<and> number (count_of (count (body_of rb))) = NaN"
  then have "suggest_items rw (count_of (count (body_of rb))) = Some xs"
    using api_suggest_items by blast
  then obtain ys where "xs = slice0 ys (count_of (count (body_of rb)))"
    by (auto simp: suggest_items_def)
  with a show "xs = []" by (simp add: slice0_NaN)
qed

text \<open>
  An answer of nine item lines: a request with the \<^verbatim>\<open>count\<close> 2.5 gets two items, a request
  with the \<^verbatim>\<open>count\<close> \<^verbatim>\<open>true\<close> gets one, and a request with the \<^verbatim>\<open>count\<close> \<^verbatim>\<open>"abc"\<close> gets none.
\<close>

theorem count_used_as_given_witness:
  "api_suggest ascii cfg_auto no_prose (answers (Some nine_lines))
       (Some (no_body\<lparr>count := Some \<lparr>rendering = js ''2.5'', number = Fin (5 / 2)\<rparr>\<rparr>))
     = Some \<lparr>status = 200,
         json = Items [js ''CLO1: a'', js ''CLO2: b''] nine_lines (js ''gpt-5-mini'')\<rparr>
   \<and> length [js ''CLO1: a'', js ''CLO2: b''] \<le> nat \<lfloor>5 / 2 :: rat\<rfloor>
   \<and> api_suggest ascii cfg_auto no_prose (answers (Some nine_lines))
       (Some (no_body\<lparr>count := Some \<lparr>rendering = js ''true'', number = Fin 1\<rparr>\<rparr>))
     = Some \<lparr>status = 200, json = Items [js ''CLO1: a''] nine_lines (js ''gpt-5-mini'')\<rparr>
   \<and> length [js ''CLO1: a''] \<le> nat \<lfloor>1 :: rat\<rfloor>
   \<and> api_suggest ascii cfg_auto no_prose (answers (Some nine_lines))
       (Some (no_body\<lparr>count := Some \<lparr>rendering = js ''abc'', number = NaN\<rparr>\<rparr>))
     = Some \<lparr>status = 200, json = Items [] nine_lines (js ''gpt-5-mini'')\<rparr>"
proof -
  let ?half = "\<lparr>rendering = js ''2.5'', number = Fin (5 / 2)\<rparr>"
  let ?true = "\<lparr>rendering = js ''true'', number = Fin 1\<rparr>"
  let ?abc = "\<lparr>rendering = js ''abc'', number = NaN\<rparr>"
  have m: "pickModel cfg_auto (js ''suggest'') (model (body_of (Some (no_body\<lparr>count := x\<rparr>))))
      = js ''gpt-5-mini''" for x
    by (simp add: pickModel_def body_of_def no_body_def cfg_auto_def orEmpty_def js_def)
  have c: "count_of (count (body_of (Some (no_body\<lparr>count := Some x\<rparr>)))) = x" for x
    by (simp add: count_of_def body_of_def no_body_def)
  have f: "\<lfloor>5 / 2 :: rat\<rfloor> = 2"
    by (rule floor_unique) simp_all
  have i1: "suggest_items nine_lines ?half = Some [js ''CLO1: a'', js ''CLO2: b'']"
    unfolding suggest_items_def nine_lines_matched pad_items_no_extras[OF nine_lines_extras]
    by (simp add: slice0_def integer_part_def f)
  have i2: "suggest_items nine_lines ?true = Some [js ''CLO1: a'']"
    unfolding suggest_items_def nine_lines_matched
    by (simp add: slice0_def integer_part_def pad_items_done lt_count_def)
  have i3: "suggest_items nine_lines ?abc = Some []"
    unfolding suggest_items_def nine_lines_matched
    by (simp add: slice0_def pad_items_done lt_count_def)
  have r1: "api_suggest ascii cfg_auto no_prose (answers (Some nine_lines))
       (Some (no_body\<lparr>count := Some ?half\<rparr>))
     = Some \<lparr>status = 200,
         json = Items [js ''CLO1: a'', js ''CLO2: b''] nine_lines (js ''gpt-5-mini'')\<rparr>"
    unfolding api_suggest_answers c m by (simp only: orEmpty_def option.case i1) simp
  have r2: "api_suggest ascii cfg_auto no_prose (answers (Some nine_lines))
       (Some (no_body\<lparr>count := Some ?true\<rparr>))
     = Some \<lparr>status = 200, json = Items [js ''CLO1: a''] nine_lines (js ''gpt-5-mini'')\<rparr>"
    unfolding api_suggest_answers c m by (simp only: orEmpty_def option.case i2) simp
  have r3: "api_suggest ascii cfg_auto no_prose (answers (Some nine_lines))
       (Some (no_body\<lparr>count := Some ?abc\<rparr>))
     = Some \<lparr>status = 200, json = Items [] nine_lines (js ''gpt-5-mini'')\<rparr>"
    unfolding api_suggest_answers c m by (simp only: orEmpty_def option.case i3) simp
  from count_used_as_given[where U = ascii and cfg = cfg_auto and T = no_prose
      and create = "answers (Some nine_lines)" and rb = "Some (no_body\<lparr>count := Some ?half\<rparr>)"
      and xs = "[js ''CLO1: a'', js ''CLO2: b'']" and rw = nine_lines and m = "js ''gpt-5-mini''"
      and r = "5 / 2"]
    count_used_as_given[where U = ascii and cfg = cfg_auto and T = no_prose
      and create = "answers (Some nine_lines)" and rb = "Some (no_body\<lparr>count := Some ?true\<rparr>)"
      and xs = "[js ''CLO1: a'']" and rw = nine_lines and m = "js ''gpt-5-mini''" and r = 1]
    r1 r2 r3 c
  show ?thesis by simp
qed

section \<open>Properties of the verb pool\<close>

lemma uniq_loop_acc: "uniq_loop U seen uniq xs = uniq @ uniq_loop U seen [] xs"
proof (induction xs arbitrary: seen uniq)
  case Nil
  show ?case by simp
next
  case (Cons it rest)
  show ?case
    using Cons[of "insert (toLowerCase U (verb it)) seen" "uniq @ [it]"]
      Cons[of "insert (toLowerCase U (verb it)) seen" "[it]"] Cons[of seen uniq]
    by (simp add: uniq_loop.simps Let_def)
qed

lemma uniq_loop_Cons:
  "uniq_loop U seen [] (it # rest) =
     (if toLowerCase U (verb it) \<notin> seen
      then it # uniq_loop U (insert (toLowerCase U (verb it)) seen) [] rest
      else uniq_loop U seen [] rest)"
  using uniq_loop_acc[of U "insert (toLowerCase U (verb it)) seen" "[it]" rest]
  by (simp add: uniq_loop.simps Let_def)

lemma uniq_loop_keys:
  "(\<lambda>x. toLowerCase U (verb x)) ` set (uniq_loop U seen [] xs)
     = (\<lambda>x. toLowerCase U (verb x)) ` set xs - seen"
  by (induction xs arbitrary: seen) (auto simp: uniq_loop_Cons)

lemma uniq_loop_distinct:
  "distinct (map (\<lambda>x. toLowerCase U (verb x)) (uniq_loop U seen [] xs))"
proof (induction xs arbitrary: seen)
  case Nil
  show ?case by simp
next
  case (Cons it rest)
  show ?case
    using Cons[of seen] Cons[of "insert (toLowerCase U (verb it)) seen"]
      uniq_loop_keys[of U "insert (toLowerCase U (verb it)) seen" rest]
    by (auto simp: uniq_loop_Cons)
qed

lemma uniq_loop_subseq: "subseq (uniq_loop U seen [] xs) xs"
  by (induction xs arbitrary: seen) (auto simp: uniq_loop_Cons)

lemma uniq_loop_first:
  "x \<in> set (uniq_loop U seen [] xs) \<Longrightarrow>
     find (\<lambda>y. toLowerCase U (verb y) = toLowerCase U (verb x)) xs = Some x"
proof (induction xs arbitrary: seen)
  case Nil
  then show ?case by simp
next
  case (Cons it rest)
  let ?k = "toLowerCase U (verb it)"
  show ?case
  proof (cases "x = it \<and> ?k \<notin> seen")
    case True
    then show ?thesis by simp
  next
    case False
    with Cons.prems have "x \<in> set (uniq_loop U (insert ?k seen) [] rest) \<and> ?k \<notin> seen
        \<or> x \<in> set (uniq_loop U seen [] rest) \<and> ?k \<in> seen"
      by (auto simp: uniq_loop_Cons split: if_splits)
    then show ?thesis
    proof
      assume a: "x \<in> set (uniq_loop U (insert ?k seen) [] rest) \<and> ?k \<notin> seen"
      then have "toLowerCase U (verb x) \<in> (\<lambda>x. toLowerCase U (verb x)) ` set rest - insert ?k seen"
        using uniq_loop_keys[of U "insert ?k seen" rest] by blast
      then have "toLowerCase U (verb x) \<noteq> ?k" by auto
      with Cons.IH[of "insert ?k seen"] a show ?thesis by simp
    next
      assume a: "x \<in> set (uniq_loop U seen [] rest) \<and> ?k \<in> seen"
      then have "toLowerCase U (verb x) \<in> (\<lambda>x. toLowerCase U (verb x)) ` set rest - seen"
        using uniq_loop_keys[of U seen rest] by blast
      with a have "toLowerCase U (verb x) \<noteq> ?k" by auto
      with Cons.IH[of seen] a show ?thesis by simp
    qed
  qed
qed

lemma uniq_verbs_eq:
  "uniq_verbs U targets bv =
     uniq_loop U {} []
       (if \<exists>x \<in> set (normalized bv). level x \<in> set targets
        then filter (\<lambda>x. level x \<in> set targets) (normalized bv) else normalized bv)"
  by (simp add: uniq_verbs_def byTarget_def Let_def filter_empty_conv)

lemma join_Nil_iff: "sep \<noteq> [] \<Longrightarrow> join sep xs = [] \<longleftrightarrow> xs = [] \<or> xs = [[]]"
  by (induction sep xs rule: join.induct) auto

lemma render_verb_not_Nil: "render_verb it \<noteq> []"
  by (simp add: render_verb_def js_def)

lemma verbsForPrompt_Nil_iff: "verbsForPrompt n uniq = [] \<longleftrightarrow> n = 0 \<or> uniq = []"
proof -
  have "map render_verb (take n uniq) \<noteq> [[]]"
    using render_verb_not_Nil by (cases "take n uniq") auto
  then show ?thesis
    by (simp add: verbsForPrompt_def join_Nil_iff js_def)
qed

lemma fallback_not_Nil: "join (js '', '') fallbackVerbs \<noteq> []"
  by (simp add: fallbackVerbs_def)

lemma join_not_Nil: "xs \<noteq> [] \<Longrightarrow> last xs \<noteq> [] \<Longrightarrow> join sep xs \<noteq> []"
  by (induction sep xs rule: join.induct) auto

lemma last_join: "xs \<noteq> [] \<Longrightarrow> last xs \<noteq> [] \<Longrightarrow> last (join sep xs) = last (last xs)"
proof (induction sep xs rule: join.induct)
  case (3 sep x y ys)
  then have "join sep (y # ys) \<noteq> []" by (simp add: join_not_Nil)
  with 3 show ?case by simp
qed simp_all

text \<open>A rendered entry ends with a bracket, the last default verb with a letter.\<close>

lemma rendered_not_defaults:
  assumes "xs \<noteq> []"
  shows "join (js '', '') (map render_verb xs) \<noteq> join (js '', '') fallbackVerbs"
proof -
  have "last (map render_verb xs) = render_verb (last xs)"
    using assms by (simp add: last_map)
  then have "last (join (js '', '') (map render_verb xs)) = last (render_verb (last xs))"
    using assms last_join[of "map render_verb xs" "js '', ''"] by (simp add: render_verb_not_Nil)
  then have "last (join (js '', '') (map render_verb xs)) = 41"
    by (simp add: render_verb_def js_def)
  moreover have "last (join (js '', '') fallbackVerbs) = 103"
    by (simp add: fallbackVerbs_def)
  ultimately show ?thesis by auto
qed

lemma uniq_loop_Nil_iff: "uniq_loop U {} [] xs = [] \<longleftrightarrow> xs = []"
  by (cases xs) (simp_all add: uniq_loop_Cons)

lemma uniq_verbs_Nil_iff: "uniq_verbs U targets bv = [] \<longleftrightarrow> normalized bv = []"
  by (auto simp: uniq_verbs_eq uniq_loop_Nil_iff filter_empty_conv)

lemmas eval_norm = normalized_def List.map_filter_def norm_def orEmpty_def trim_def isSpace_def
  js_def Let_def

lemma targets_I: "targetBloomLevels (js ''I'') = [js ''Remember'', js ''Understand'']"
  by (simp add: targetBloomLevels_def LEVEL2BLOOM_def bloom_I_def js_def)

lemma targets_A: "targetBloomLevels (js ''A'') = [js ''Evaluate'', js ''Create'']"
  by (simp add: targetBloomLevels_def LEVEL2BLOOM_def bloom_I_def js_def)

text \<open>
  Claim C6 says that the six default verbs are substituted only when the input pool itself
  is empty. On the request whose \<^verbatim>\<open>bloomVerbs\<close> is \<^verbatim>\<open>[null, ""]\<close>, a list of two entries,
  \<^verbatim>\<open>norm\<close> keeps neither entry, and the prompt of \<^verbatim>\<open>/api/suggest\<close> lists the six default
  verbs: it is the prompt of the same request without \<^verbatim>\<open>bloomVerbs\<close>.
\<close>

theorem defaults_for_nonempty_input:
  "bloomVerbs (no_body\<lparr>plo := Some (js ''PLO1''), bloomVerbs := Some [Falsy, Str []]\<rparr>)
     = Some [Falsy, Str []]
   \<and> [Falsy, Str []] \<noteq> []
   \<and> suggest_prompt ascii no_prose
       (no_body\<lparr>plo := Some (js ''PLO1''), bloomVerbs := Some [Falsy, Str []]\<rparr>)
     = js ''6IPLO1I'' @ join (js '', '') fallbackVerbs @ js ''66''
   \<and> suggest_prompt ascii no_prose (no_body\<lparr>plo := Some (js ''PLO1'')\<rparr>)
     = js ''6IPLO1I'' @ join (js '', '') fallbackVerbs @ js ''66''"
proof (intro conjI)
  let ?b = "no_body\<lparr>plo := Some (js ''PLO1''), bloomVerbs := Some [Falsy, Str []]\<rparr>"
  let ?c = "no_body\<lparr>plo := Some (js ''PLO1'')\<rparr>"
  show "bloomVerbs ?b = Some [Falsy, Str []]" by simp
  show "[Falsy, Str []] \<noteq> []" by simp
  have f: "bloomVerbs ?b = Some [Falsy, Str []]" "course ?b = None" "count ?b = None"
    "ploText ?b = None" "plo ?b = Some (js ''PLO1'')"
    by (simp_all add: no_body_def)
  have l: "linkLevel_of ascii ?b = js ''I''"
    by (simp add: linkLevel_of_def no_body_def ascii_def js_def)
  have n: "normalized (Some [Falsy, Str []]) = []"
    by (simp add: eval_norm)
  have v: "VERB_LIST 180 (uniq_verbs ascii (targetBloomLevels (js ''I'')) (Some [Falsy, Str []]))
      = join (js '', '') fallbackVerbs"
    by (simp add: VERB_LIST_def verbsForPrompt_def uniq_verbs_def n byTarget_def)
  show "suggest_prompt ascii no_prose ?b
      = js ''6IPLO1I'' @ join (js '', '') fallbackVerbs @ js ''66''"
    unfolding suggest_prompt_def Let_def f l v
    by (simp add: no_prose_def count_of_def int_count_def show_int_def show_nat_digit
        courseLabel_def courseFull_def credits_def no_course_def orEmpty_def tpl_def
        fallbackVerbs_def) (simp add: js_def trim_def isSpace_def)
  have g: "bloomVerbs ?c = None" "course ?c = None" "count ?c = None"
    "ploText ?c = None" "plo ?c = Some (js ''PLO1'')"
    by (simp_all add: no_body_def)
  have k: "linkLevel_of ascii ?c = js ''I''"
    by (simp add: linkLevel_of_def no_body_def ascii_def js_def)
  have w: "VERB_LIST 180 (uniq_verbs ascii (targetBloomLevels (js ''I'')) None)
      = join (js '', '') fallbackVerbs"
    by (simp add: VERB_LIST_def verbsForPrompt_def uniq_verbs_def normalized_def
        List.map_filter_def byTarget_def)
  show "suggest_prompt ascii no_prose ?c
      = js ''6IPLO1I'' @ join (js '', '') fallbackVerbs @ js ''66''"
    unfolding suggest_prompt_def Let_def g k w
    by (simp add: no_prose_def count_of_def int_count_def show_int_def show_nat_digit
        courseLabel_def courseFull_def credits_def no_course_def orEmpty_def tpl_def
        fallbackVerbs_def) (simp add: js_def trim_def isSpace_def)
qed

text \<open>
  Claim C6, amended: the default verbs are substituted exactly when no entry of the input
  survives \<^verbatim>\<open>norm\<close>, which is so for an absent or empty list and also for a list of entries
  that \<^verbatim>\<open>norm\<close> drops. For a request body \<open>b\<close>, \<open>targets\<close> is the set of levels permitted for
  its link level; \<open>pool\<close> is what \<^verbatim>\<open>norm\<close> keeps of \<^verbatim>\<open>bloomVerbs\<close>; \<open>chosen\<close> is its entries
  with a permitted level when there is one, and the whole of it otherwise; \<open>uniq\<close> is the
  result of the loop. The prompt of \<^verbatim>\<open>/api/suggest\<close> has the list \<open>verbs\<close> at the place of
  \<^verbatim>\<open>VERB_LIST\<close>: the six default verbs when \<open>pool\<close> is empty, and otherwise the first 180
  entries of \<open>uniq\<close>, rendered. This list is never empty, and it is the list of the default
  verbs only when \<open>pool\<close> is empty; no two entries of \<open>uniq\<close> have the same lower-cased verb;
  \<open>uniq\<close> keeps the order of \<open>chosen\<close>, has every lower-cased verb of it, and each of its
  entries is the first of \<open>chosen\<close> with that verb; and \<open>uniq\<close> has an entry to render
  whenever \<open>pool\<close> is not empty.
\<close>

theorem verb_pool_is_normalized:
  fixes U :: unicode and T :: "nat \<Rightarrow> jsstring" and b :: body
  defines "targets \<equiv> targetBloomLevels (linkLevel_of U b)"
  defines "pool \<equiv> normalized (bloomVerbs b)"
  defines "chosen \<equiv>
     (if \<exists>x \<in> set pool. level x \<in> set targets
      then filter (\<lambda>x. level x \<in> set targets) pool else pool)"
  defines "uniq \<equiv> uniq_verbs U targets (bloomVerbs b)"
  defines "verbs \<equiv>
     (if pool = [] then join (js '', '') fallbackVerbs
      else join (js '', '') (map render_verb (take 180 uniq)))"
  defines "crs \<equiv> (case course b of None \<Rightarrow> no_course | Some c \<Rightarrow> c)"
  shows
    "suggest_prompt U T b =
       trim (T 0 @ rendering (count_of (count b)) @ T 1 @ courseLabel crs @ T 2
         @ courseFull crs @ T 3 @ credits crs @ T 4 @ linkLevel_of U b @ T 5 @ tpl (plo b)
         @ T 6 @ orEmpty (ploText b) @ T 7 @ linkLevel_of U b @ T 8 @ verbs @ T 9
         @ rendering (count_of (count b)) @ T 10 @ rendering (count_of (count b)) @ T 11)
     \<and> verbs \<noteq> []
     \<and> (verbs = join (js '', '') fallbackVerbs) = (pool = [])
     \<and> distinct (map (\<lambda>x. toLowerCase U (verb x)) uniq)
     \<and> subseq uniq chosen
     \<and> (\<lambda>x. toLowerCase U (verb x)) ` set uniq = (\<lambda>x. toLowerCase U (verb x)) ` set chosen
     \<and> (\<forall>x \<in> set uniq. find (\<lambda>y. toLowerCase U (verb y) = toLowerCase U (verb x)) chosen = Some x)
     \<and> (take 180 uniq = []) = (pool = [])"
proof -
  have u: "uniq = uniq_loop U {} [] chosen"
    unfolding uniq_def chosen_def pool_def by (rule uniq_verbs_eq)
  have e: "(uniq = []) = (pool = [])"
    unfolding uniq_def pool_def by (rule uniq_verbs_Nil_iff)
  have v: "VERB_LIST 180 uniq = verbs"
    unfolding verbs_def
    using e by (auto simp: VERB_LIST_def verbsForPrompt_Nil_iff) (simp add: verbsForPrompt_def)+
  have 0: "suggest_prompt U T b =
       trim (T 0 @ rendering (count_of (count b)) @ T 1 @ courseLabel crs @ T 2
         @ courseFull crs @ T 3 @ credits crs @ T 4 @ linkLevel_of U b @ T 5 @ tpl (plo b)
         @ T 6 @ orEmpty (ploText b) @ T 7 @ linkLevel_of U b @ T 8 @ verbs @ T 9
         @ rendering (count_of (count b)) @ T 10 @ rendering (count_of (count b)) @ T 11)"
    unfolding v[symmetric] uniq_def targets_def crs_def
    by (simp add: suggest_prompt_def Let_def)
  have 1: "verbs \<noteq> []"
    unfolding v[symmetric] by (simp add: VERB_LIST_def fallback_not_Nil)
  have 7: "(take 180 uniq = []) = (pool = [])"
    using e by simp
  have 8: "(verbs = join (js '', '') fallbackVerbs) = (pool = [])"
    unfolding verbs_def using 7 rendered_not_defaults[of "take 180 uniq"] by auto
  have 2: "distinct (map (\<lambda>x. toLowerCase U (verb x)) uniq)"
    unfolding u by (rule uniq_loop_distinct)
  have 3: "subseq uniq chosen"
    unfolding u by (rule uniq_loop_subseq)
  have 4: "(\<lambda>x. toLowerCase U (verb x)) ` set uniq = (\<lambda>x. toLowerCase U (verb x)) ` set chosen"
    unfolding u by (simp add: uniq_loop_keys)
  have 5: "\<forall>x \<in> set uniq. find (\<lambda>y. toLowerCase U (verb y) = toLowerCase U (verb x)) chosen = Some x"
    unfolding u by (blast intro: uniq_loop_first)
  from 0 1 8 2 3 4 5 7 show ?thesis by blast
qed

text \<open>
  Six input entries, of which \<^verbatim>\<open>norm\<close> drops two. For the level \<^verbatim>\<open>i\<close>, which the handler
  reads as \<^verbatim>\<open>I\<close>, two entries have a permitted level and the prompt lists only them; for
  \<^verbatim>\<open>A\<close> none has, and the prompt lists the whole pool, without the second \<^verbatim>\<open>describe\<close>:
  the entry listed is the first of the pool with that verb.
\<close>

theorem verb_pool_is_normalized_witness:
  "suggest_prompt ascii no_prose
     (no_body\<lparr>plo := Some (js ''PLO1''), levelFromBody := Some (js ''i''),
        bloomVerbs := Some [Obj (js ''Describe'') (js ''Understand''), Str (js '' describe ''),
          Obj (js ''Apply'') (js ''Apply''), Falsy, Obj [] (js ''Create''),
          Obj (js ''List'') (js ''Remember'')]\<rparr>)
   = js ''6IPLO1IDescribe (Understand), List (Remember)66''
   \<and> suggest_prompt ascii no_prose
     (no_body\<lparr>plo := Some (js ''PLO1''), levelFromBody := Some (js ''A''),
        bloomVerbs := Some [Obj (js ''Describe'') (js ''Understand''), Str (js '' describe ''),
          Obj (js ''Apply'') (js ''Apply''), Falsy, Obj [] (js ''Create''),
          Obj (js ''List'') (js ''Remember'')]\<rparr>)
   = js ''6APLO1ADescribe (Understand), Apply (Apply), List (Remember)66''
   \<and> find (\<lambda>y. toLowerCase ascii (verb y) = js ''describe'')
       (normalized (Some [Obj (js ''Describe'') (js ''Understand''), Str (js '' describe ''),
          Obj (js ''Apply'') (js ''Apply''), Falsy, Obj [] (js ''Create''),
          Obj (js ''List'') (js ''Remember'')]))
     = Some \<lparr>verb = js ''Describe'', level = js ''Understand''\<rparr>"
proof (intro conjI)
  let ?bv = "Some [Obj (js ''Describe'') (js ''Understand''), Str (js '' describe ''),
          Obj (js ''Apply'') (js ''Apply''), Falsy, Obj [] (js ''Create''),
          Obj (js ''List'') (js ''Remember'')]"
  let ?bI = "no_body\<lparr>plo := Some (js ''PLO1''), levelFromBody := Some (js ''i''),
        bloomVerbs := ?bv\<rparr>"
  let ?bA = "no_body\<lparr>plo := Some (js ''PLO1''), levelFromBody := Some (js ''A''),
        bloomVerbs := ?bv\<rparr>"
  have n: "normalized ?bv =
     [\<lparr>verb = js ''Describe'', level = js ''Understand''\<rparr>, \<lparr>verb = js ''describe'', level = []\<rparr>,
      \<lparr>verb = js ''Apply'', level = js ''Apply''\<rparr>, \<lparr>verb = js ''List'', level = js ''Remember''\<rparr>]"
    by (simp add: eval_norm)
  have a: "uniq_verbs ascii (targetBloomLevels (js ''I'')) ?bv
     = [\<lparr>verb = js ''Describe'', level = js ''Understand''\<rparr>, \<lparr>verb = js ''List'', level = js ''Remember''\<rparr>]"
    unfolding uniq_verbs_eq n targets_I
    by (simp add: uniq_loop_Cons ascii_def js_def)
  have b: "uniq_verbs ascii (targetBloomLevels (js ''A'')) ?bv
     = [\<lparr>verb = js ''Describe'', level = js ''Understand''\<rparr>,
        \<lparr>verb = js ''Apply'', level = js ''Apply''\<rparr>, \<lparr>verb = js ''List'', level = js ''Remember''\<rparr>]"
    unfolding uniq_verbs_eq n targets_A
    by (simp add: uniq_loop_Cons ascii_def js_def)
  have fI: "bloomVerbs ?bI = ?bv" "course ?bI = None" "count ?bI = None"
    "ploText ?bI = None" "plo ?bI = Some (js ''PLO1'')"
    by (simp_all add: no_body_def)
  have fA: "bloomVerbs ?bA = ?bv" "course ?bA = None" "count ?bA = None"
    "ploText ?bA = None" "plo ?bA = Some (js ''PLO1'')"
    by (simp_all add: no_body_def)
  have lI: "linkLevel_of ascii ?bI = js ''I''"
    by (simp add: linkLevel_of_def no_body_def ascii_def js_def)
  have lA: "linkLevel_of ascii ?bA = js ''A''"
    by (simp add: linkLevel_of_def no_body_def ascii_def js_def)
  note pI = verb_pool_is_normalized[where U = ascii and T = no_prose and b = ?bI, THEN conjunct1]
  note pA = verb_pool_is_normalized[where U = ascii and T = no_prose and b = ?bA, THEN conjunct1]
  show "suggest_prompt ascii no_prose ?bI = js ''6IPLO1IDescribe (Understand), List (Remember)66''"
    unfolding pI fI lI a n
    by (simp add: no_prose_def count_of_def int_count_def show_int_def show_nat_digit
        courseLabel_def courseFull_def credits_def no_course_def orEmpty_def tpl_def
        render_verb_def) (simp add: js_def trim_def isSpace_def)
  show "suggest_prompt ascii no_prose ?bA
      = js ''6APLO1ADescribe (Understand), Apply (Apply), List (Remember)66''"
    unfolding pA fA lA b n
    by (simp add: no_prose_def count_of_def int_count_def show_int_def show_nat_digit
        courseLabel_def courseFull_def credits_def no_course_def orEmpty_def tpl_def
        render_verb_def) (simp add: js_def trim_def isSpace_def)
  note first = verb_pool_is_normalized[where U = ascii and T = no_prose and b = ?bA,
      THEN conjunct2, THEN conjunct2, THEN conjunct2, THEN conjunct2, THEN conjunct2,
      THEN conjunct2, THEN conjunct1, unfolded fA lA b targets_A]
  have d: "toLowerCase ascii (js ''Describe'') = js ''describe''"
    by (simp add: ascii_def js_def)
  have "\<not> (\<exists>x \<in> set (normalized ?bv). level x \<in> set [js ''Evaluate'', js ''Create''])"
    unfolding n by (simp add: js_def)
  with first[THEN bspec, of "\<lparr>verb = js ''Describe'', level = js ''Understand''\<rparr>"] d
    b[unfolded targets_A]
  show "find (\<lambda>y. toLowerCase ascii (verb y) = js ''describe'') (normalized ?bv)
      = Some \<lparr>verb = js ''Describe'', level = js ''Understand''\<rparr>"
    by simp
qed

section \<open>Properties of the prompts\<close>

lemma str_includes_append: "str_includes (a @ t @ b) t"
proof (induction a)
  case Nil
  have "prefix t (t @ b)" by simp
  then show ?case by (cases "t @ b") auto
next
  case (Cons x a)
  then show ?case by simp
qed

lemma dropWhile_keeps_word:
  assumes "w \<noteq> []" "\<not> P (hd w)"
  shows "\<exists>a'. dropWhile P (a @ w @ b) = a' @ w @ b"
proof (cases "\<forall>x \<in> set a. P x")
  case True
  from assms obtain c w' where w: "w = c # w'" "\<not> P c" by (cases w) auto
  from True have "dropWhile P (a @ w @ b) = dropWhile P (w @ b)" by (simp add: dropWhile_append2)
  with w have "dropWhile P (a @ w @ b) = [] @ w @ b" by simp
  then show ?thesis by blast
next
  case False
  then have "dropWhile P (a @ w @ b) = dropWhile P a @ w @ b"
    by (auto simp: dropWhile_append1)
  then show ?thesis by blast
qed

lemma trim_keeps_word:
  assumes "w \<noteq> []" "\<not> isSpace (hd w)" "\<not> isSpace (last w)"
  shows "\<exists>a' b'. trim (a @ w @ b) = a' @ w @ b'"
proof -
  from dropWhile_keeps_word[where P = isSpace and w = w and a = a and b = b, OF assms(1,2)]
  obtain a' where
    1: "dropWhile isSpace (a @ w @ b) = a' @ w @ b" by blast
  from assms have "rev w \<noteq> []" "\<not> isSpace (hd (rev w))" by (simp_all add: hd_rev)
  from dropWhile_keeps_word[where P = isSpace and w = "rev w" and a = "rev b" and b = "rev a'", OF this]
  obtain b' where
    2: "dropWhile isSpace (rev b @ rev w @ rev a') = b' @ rev w @ rev a'" by blast
  have "trim (a @ w @ b) = a' @ w @ rev b'"
    by (simp add: trim_def 1 2)
  then show ?thesis by blast
qed

lemma trim_includes_undefined:
  "str_includes (trim (a @ js ''undefined'' @ b)) (js ''undefined'')"
proof -
  have "js ''undefined'' \<noteq> []" "\<not> isSpace (hd (js ''undefined''))"
    "\<not> isSpace (last (js ''undefined''))"
    by (simp_all add: js_def isSpace_def)
  from trim_keeps_word[where w = "js ''undefined''" and a = a and b = b, OF this]
  obtain a' b' where
    "trim (a @ js ''undefined'' @ b) = a' @ js ''undefined'' @ b'" by blast
  then show ?thesis by (simp add: str_includes_append)
qed

lemma linkLevel_default: "linkLevel_of ascii (no_body\<lparr>plo := x\<rparr>) = js ''I''"
  by (simp add: linkLevel_of_def no_body_def ascii_def js_def)

lemma verbs_default: "VERB_LIST n (uniq_verbs U ts None) = join (js '', '') fallbackVerbs"
  by (simp add: VERB_LIST_def verbsForPrompt_def uniq_verbs_def normalized_def
      List.map_filter_def byTarget_def)

text \<open>
  Claim C4, on the empty request. Whatever the prose of the templates, the prompts of
  \<^verbatim>\<open>/api/suggest\<close> and \<^verbatim>\<open>/api/evaluate\<close> contain the word \<^verbatim>\<open>undefined\<close>: \<^verbatim>\<open>plo\<close> is
  destructured without a default and interpolated as it is. It is the only field that
  does so: with \<^verbatim>\<open>plo\<close> given, every other field absent and no prose, neither prompt
  contains the word.
\<close>

theorem absent_plo_renders_undefined:
  "str_includes (suggest_prompt U T no_body) (js ''undefined'')
   \<and> str_includes (evaluate_prompt U T no_body) (js ''undefined'')
   \<and> \<not> str_includes (suggest_prompt ascii no_prose (no_body\<lparr>plo := Some (js ''PLO1'')\<rparr>))
         (js ''undefined'')
   \<and> \<not> str_includes (evaluate_prompt ascii no_prose (no_body\<lparr>plo := Some (js ''PLO1'')\<rparr>))
         (js ''undefined'')"
proof (intro conjI)
  have p: "tpl (plo no_body) = js ''undefined''"
    by (simp add: tpl_def no_body_def)
  show "str_includes (suggest_prompt U T no_body) (js ''undefined'')"
    unfolding suggest_prompt_def Let_def p
    using trim_includes_undefined[of "T 0 @ rendering (count_of (count no_body)) @ T 1
       @ courseLabel (case course no_body of None \<Rightarrow> no_course | Some c \<Rightarrow> c) @ T 2
       @ courseFull (case course no_body of None \<Rightarrow> no_course | Some c \<Rightarrow> c) @ T 3
       @ credits (case course no_body of None \<Rightarrow> no_course | Some c \<Rightarrow> c) @ T 4
       @ linkLevel_of U no_body @ T 5"]
    by simp
  show "str_includes (evaluate_prompt U T no_body) (js ''undefined'')"
    unfolding evaluate_prompt_def Let_def p
    using trim_includes_undefined[of "T 0
       @ courseLabel (case course no_body of None \<Rightarrow> no_course | Some c \<Rightarrow> c) @ T 1
       @ courseFull (case course no_body of None \<Rightarrow> no_course | Some c \<Rightarrow> c) @ T 2
       @ credits (case course no_body of None \<Rightarrow> no_course | Some c \<Rightarrow> c) @ T 3"]
    by simp
next
  let ?b = "no_body\<lparr>plo := Some (js ''PLO1'')\<rparr>"
  have f: "bloomVerbs ?b = None" "course ?b = None" "count ?b = None" "ploText ?b = None"
    "cloText ?b = None" "plo ?b = Some (js ''PLO1'')"
    by (simp_all add: no_body_def)
  have s: "suggest_prompt ascii no_prose ?b
      = js ''6IPLO1I'' @ join (js '', '') fallbackVerbs @ js ''66''"
    unfolding suggest_prompt_def Let_def f linkLevel_default verbs_default
    by (simp add: no_prose_def count_of_def int_count_def show_int_def show_nat_digit
        courseLabel_def courseFull_def credits_def no_course_def orEmpty_def tpl_def
        fallbackVerbs_def) (simp add: js_def trim_def isSpace_def)
  show "\<not> str_includes (suggest_prompt ascii no_prose ?b) (js ''undefined'')"
    unfolding s by (simp add: fallbackVerbs_def js_def)
  have e: "evaluate_prompt ascii no_prose ?b
      = js ''PLO1II'' @ join (js '', '') fallbackVerbs @ js ''I''"
    unfolding evaluate_prompt_def Let_def f linkLevel_default verbs_default
    by (simp add: no_prose_def
        courseLabel_def courseFull_def credits_def no_course_def orEmpty_def tpl_def
        fallbackVerbs_def) (simp add: js_def trim_def isSpace_def)
  show "\<not> str_includes (evaluate_prompt ascii no_prose ?b) (js ''undefined'')"
    unfolding e by (simp add: fallbackVerbs_def js_def)
qed

end
